theory Spec2Isabelle
  imports Complex_Main
begin

text \<open>
  The three pure utilities of the site-log application: the worked hours of a shift
  (\<open>calculateHours\<close>), the month grid of the calendar (\<open>getMonthDays\<close>,
  \<open>getCalendarGrid\<close>) and the priority tier of a due date (\<open>calculatePriority\<close>). The
  definitions come first, each next to the source it is read from; the lemmas follow,
  and then the claims of the specification, one section for each utility.
\<close>

section \<open>HoursCalculator: \<open>calculateHours\<close>\<close>

text \<open>
  The worked-hours routine of the utilities module:
  \<^verbatim>\<open>
  export function calculateHours(start: string, finish: string, lunchMinutes: number = 0): number {
    if (!/^\d{2}:\d{2}$/.test(start) || !/^\d{2}:\d{2}$/.test(finish)) return 0;
    const [sh, sm] = start.split(':').map(Number);
    const [fh, fm] = finish.split(':').map(Number);
    let startMins = sh * 60 + sm;
    let finishMins = fh * 60 + fm;
    if (finishMins < startMins) finishMins += 24 * 60;
    const total = Math.max(0, finishMins - startMins - lunchMinutes);
    return Math.round(total / 15) * 15 / 60; // round to nearest 15 min
  }
  \<close>
  Strings are character lists. \<open>lunchMinutes\<close> is an integer (the callers pass whole
  minutes); the quotient \<open>total / 15\<close> and the result are exact rationals: on whole
  minutes of this size the double arithmetic of the source is exact up to the rounding
  that \<open>Math.round\<close> removes, and a multiple of a quarter is a double.
\<close>

subsection \<open>The regular expression \<open>/^\d{2}:\d{2}$/\<close>\<close>

definition is_digit :: "char \<Rightarrow> bool" where
  "is_digit c = (48 \<le> (of_char c :: nat) \<and> (of_char c :: nat) \<le> 57)"

text \<open>\<open>\d\<close> is an ASCII digit; \<open>^\<close> and \<open>$\<close> (no flags) anchor at both ends of the input.\<close>

fun test_hhmm :: "string \<Rightarrow> bool" where
  "test_hhmm [a, b, c, d, e] =
     (is_digit a \<and> is_digit b \<and> c = CHR '':'' \<and> is_digit d \<and> is_digit e)"
| "test_hhmm _ = False"

subsection \<open>\<open>split(':')\<close> and \<open>Number\<close>\<close>

text \<open>
  \<open>split_acc\<close> walks the string with the piece read so far; every separator closes a
  piece, and the end of the string closes the last one (so the empty string gives one
  empty piece, as in JavaScript).
\<close>

fun split_acc :: "char \<Rightarrow> string \<Rightarrow> string \<Rightarrow> string list" where
  "split_acc sep cur [] = [rev cur]"
| "split_acc sep cur (c # cs) =
     (if c = sep then rev cur # split_acc sep [] cs else split_acc sep (c # cur) cs)"

definition split :: "string \<Rightarrow> char \<Rightarrow> string list" where
  "split s sep = split_acc sep [] s"

definition digit_value :: "char \<Rightarrow> int" where
  "digit_value c = int (of_char c) - 48"

text \<open>
  \<open>Number\<close> on a string of decimal digits (the only strings that reach it here, after
  the test above): its decimal value, leading zeros allowed.
\<close>

definition Number :: "string \<Rightarrow> int" where
  "Number s = foldl (\<lambda>n c. 10 * n + digit_value c) 0 s"

text \<open>
  The destructuring \<open>const [h, m] = ...\<close> reads elements 0 and 1 of the array; a missing
  element would be \<open>undefined\<close>, which the test excludes and the model reads as 0.
\<close>

fun hours_minutes :: "int list \<Rightarrow> int \<times> int" where
  "hours_minutes (h # m # _) = (h, m)"
| "hours_minutes [h] = (h, 0)"
| "hours_minutes [] = (0, 0)"

subsection \<open>\<open>Math.round\<close>, \<open>Math.max\<close> and the function\<close>

text \<open>\<open>Math.round\<close> rounds to the nearest integer, a tie towards \<open>+\<infinity>\<close>.\<close>

definition Math_round :: "rat \<Rightarrow> int" where
  "Math_round x = \<lfloor>x + 1 / 2\<rfloor>"

definition Math_max :: "int \<Rightarrow> int \<Rightarrow> int" where
  "Math_max a b = (if a < b then b else a)"

definition calculateHours :: "string \<Rightarrow> string \<Rightarrow> int \<Rightarrow> rat" where
  "calculateHours start finish lunchMinutes =
     (if \<not> test_hhmm start \<or> \<not> test_hhmm finish then 0
      else
        let (sh, sm) = hours_minutes (map Number (split start CHR '':''));
            (fh, fm) = hours_minutes (map Number (split finish CHR '':''));
            startMins = sh * 60 + sm;
            finishMins = fh * 60 + fm;
            finishMins = (if finishMins < startMins then finishMins + 24 * 60 else finishMins);
            total = Math_max 0 (finishMins - startMins - lunchMinutes)
        in of_int (Math_round (of_int total / 15)) * 15 / 60)"

subsection \<open>The reference computation of the specification\<close>

text \<open>
  The specification's wording, kept apart from the code: both times as minutes since
  midnight, 1440 added to a finish before the start, the lunch subtracted and the
  difference floored at 0, the result rounded to the nearest multiple of 15 (a
  remainder of at least half a quarter goes up) and divided by 60.
\<close>

definition clock_minutes :: "string \<Rightarrow> int" where
  "clock_minutes s =
     (10 * digit_value (s ! 0) + digit_value (s ! 1)) * 60
       + (10 * digit_value (s ! 3) + digit_value (s ! 4))"

definition shift_minutes :: "string \<Rightarrow> string \<Rightarrow> int" where
  "shift_minutes start finish =
     (let s = clock_minutes start; f = clock_minutes finish
      in if f < s then f + 1440 - s else f - s)"

definition nearest_quarter :: "int \<Rightarrow> int" where
  "nearest_quarter m = (let r = m mod 15 in if 15 \<le> 2 * r then m - r + 15 else m - r)"

definition computeHours_reference :: "string \<Rightarrow> string \<Rightarrow> int \<Rightarrow> rat" where
  "computeHours_reference start finish lunchMinutes =
     (let rawMinutes = max 0 (shift_minutes start finish - lunchMinutes)
      in of_int (nearest_quarter rawMinutes) / 60)"

text \<open>
  The specification's ``strict \<open>HH:MM\<close> 24-hour pattern'': the shape, with an hour of
  at most 23 and a minute of at most 59.
\<close>

definition strict_24h :: "string \<Rightarrow> bool" where
  "strict_24h s =
     (test_hhmm s
      \<and> 10 * digit_value (s ! 0) + digit_value (s ! 1) \<le> 23
      \<and> 10 * digit_value (s ! 3) + digit_value (s ! 4) \<le> 59)"

section \<open>Dates: the time values of ECMAScript\<close>

text \<open>
  The calendar and the priority code work on JavaScript \<open>Date\<close> objects through their
  local-time methods only (\<open>new Date(y, m, d)\<close>, \<open>getDay\<close>, \<open>getFullYear\<close>, \<open>getMonth\<close>,
  \<open>getDate\<close>, \<open>setDate\<close>, \<open>setHours\<close>). A \<open>Date\<close> is modelled by its local time value, the
  milliseconds since the local epoch, or by \<open>InvalidDate\<close> (the time value \<open>NaN\<close>); the
  zone is taken to have a constant offset from UTC, so that local time is a translation
  of UTC and the conversions between the two are left out (daylight saving changes are
  outside the model). The functions below follow the date algorithms of the language
  standard; \<open>YearFromTime\<close>, which the standard gives as ``the largest \<open>y\<close> with
  \<open>TimeFromYear(y) \<le> t\<close>'', is computed from an estimate and shown to meet that
  description (\<open>YearFromTime_bounds\<close>, \<open>YearFromTime_unique\<close>).
\<close>

definition msPerDay :: int where
  "msPerDay = 86400000"

definition Day :: "int \<Rightarrow> int" where
  "Day t = t div msPerDay"

definition TimeWithinDay :: "int \<Rightarrow> int" where
  "TimeWithinDay t = t mod msPerDay"

definition DaysInYear :: "int \<Rightarrow> int" where
  "DaysInYear y =
     (if y mod 4 \<noteq> 0 then 365
      else if y mod 100 \<noteq> 0 then 366
      else if y mod 400 \<noteq> 0 then 365
      else 366)"

definition DayFromYear :: "int \<Rightarrow> int" where
  "DayFromYear y =
     365 * (y - 1970) + (y - 1969) div 4 - (y - 1901) div 100 + (y - 1601) div 400"

definition YearFromTime :: "int \<Rightarrow> int" where
  "YearFromTime t =
     (let d = Day t; y = 1970 + (400 * d) div 146097
      in if d < DayFromYear y then y - 1
         else if DayFromYear (y + 1) \<le> d then y + 1
         else y)"

definition InLeapYear :: "int \<Rightarrow> int" where
  "InLeapYear t = (if DaysInYear (YearFromTime t) = 366 then 1 else 0)"

definition DayWithinYear :: "int \<Rightarrow> int" where
  "DayWithinYear t = Day t - DayFromYear (YearFromTime t)"

definition MonthFromTime :: "int \<Rightarrow> int" where
  "MonthFromTime t =
     (let d = DayWithinYear t; l = InLeapYear t
      in if d < 31 then 0
         else if d < 59 + l then 1
         else if d < 90 + l then 2
         else if d < 120 + l then 3
         else if d < 151 + l then 4
         else if d < 181 + l then 5
         else if d < 212 + l then 6
         else if d < 243 + l then 7
         else if d < 273 + l then 8
         else if d < 304 + l then 9
         else if d < 334 + l then 10
         else 11)"

definition DateFromTime :: "int \<Rightarrow> int" where
  "DateFromTime t =
     (let d = DayWithinYear t; l = InLeapYear t; m = MonthFromTime t
      in if m = 0 then d + 1
         else if m = 1 then d - 30
         else if m = 2 then d - 58 - l
         else if m = 3 then d - 89 - l
         else if m = 4 then d - 119 - l
         else if m = 5 then d - 150 - l
         else if m = 6 then d - 180 - l
         else if m = 7 then d - 211 - l
         else if m = 8 then d - 242 - l
         else if m = 9 then d - 272 - l
         else if m = 10 then d - 303 - l
         else d - 333 - l)"

definition WeekDay :: "int \<Rightarrow> int" where
  "WeekDay t = (Day t + 4) mod 7"

text \<open>The day of the year on which month \<open>mn\<close> (0 to 11) starts; \<open>l\<close> is 1 in a leap year.\<close>

definition first_day_of_month :: "int \<Rightarrow> int \<Rightarrow> int" where
  "first_day_of_month mn l =
     (if mn = 0 then 0
      else if mn = 1 then 31
      else if mn = 2 then 59 + l
      else if mn = 3 then 90 + l
      else if mn = 4 then 120 + l
      else if mn = 5 then 151 + l
      else if mn = 6 then 181 + l
      else if mn = 7 then 212 + l
      else if mn = 8 then 243 + l
      else if mn = 9 then 273 + l
      else if mn = 10 then 304 + l
      else 334 + l)"

text \<open>
  \<open>MakeDay\<close> carries a month outside 0 to 11 into the year, and a date outside the
  month into the neighbouring months: it is the day number of the first of the month
  plus \<open>date - 1\<close>.
\<close>

definition MakeDay :: "int \<Rightarrow> int \<Rightarrow> int \<Rightarrow> int" where
  "MakeDay year month date =
     (let ym = year + month div 12; mn = month mod 12
      in DayFromYear ym + first_day_of_month mn (if DaysInYear ym = 366 then 1 else 0)
           + date - 1)"

definition MakeDate :: "int \<Rightarrow> int \<Rightarrow> int" where
  "MakeDate day time = day * msPerDay + time"

datatype Date = InvalidDate | TimeValue int

text \<open>
  \<open>TimeClip\<close>: a time value beyond 100,000,000 days from the epoch is no date. (The
  bound is on UTC time in the standard; the zone offset moves it by less than a day,
  and the theorems below stay years away from it.)
\<close>

definition TimeClip :: "int \<Rightarrow> Date" where
  "TimeClip t = (if \<bar>t\<bar> > 8640000000000000 then InvalidDate else TimeValue t)"

text \<open>The \<open>Date\<close> constructor reads a year from 0 to 99 as 1900 plus that year.\<close>

definition MakeFullYear :: "int \<Rightarrow> int" where
  "MakeFullYear y = (if 0 \<le> y \<and> y \<le> 99 then 1900 + y else y)"

text \<open>\<open>new Date(year, month, date)\<close>: local midnight of that day.\<close>

definition new_Date :: "int \<Rightarrow> int \<Rightarrow> int \<Rightarrow> Date" where
  "new_Date year month date = TimeClip (MakeDate (MakeDay (MakeFullYear year) month date) 0)"

fun setDate :: "Date \<Rightarrow> int \<Rightarrow> Date" where
  "setDate InvalidDate dt = InvalidDate"
| "setDate (TimeValue t) dt =
     TimeClip (MakeDate (MakeDay (YearFromTime t) (MonthFromTime t) dt) (TimeWithinDay t))"

declare setDate.simps [simp del]

text \<open>\<open>setHours(0, 0, 0, 0)\<close>.\<close>

fun setHours_0 :: "Date \<Rightarrow> Date" where
  "setHours_0 InvalidDate = InvalidDate"
| "setHours_0 (TimeValue t) = TimeClip (MakeDate (Day t) 0)"

text \<open>The getters, on the time value of a valid date.\<close>

definition getDay :: "int \<Rightarrow> int" where
  "getDay t = WeekDay t"

definition getFullYear :: "int \<Rightarrow> int" where
  "getFullYear t = YearFromTime t"

definition getMonth :: "int \<Rightarrow> int" where
  "getMonth t = MonthFromTime t"

section \<open>The functions of \<open>date-fns\<close> that the utilities call\<close>

text \<open>
  \<open>eachDayOfInterval\<close> (version 3 of the library, which does not throw):
  \<^verbatim>\<open>
  let reversed = +startDate > +endDate;
  const endTime = reversed ? +startDate : +endDate;
  const currentDate = reversed ? endDate : startDate;
  currentDate.setHours(0, 0, 0, 0);
  const dates = [];
  while (+currentDate <= endTime) {
    dates.push(toDate(currentDate));
    currentDate.setDate(currentDate.getDate() + step);   // step is 1
    currentDate.setHours(0, 0, 0, 0);
  }
  return reversed ? dates.reverse() : dates;
  \<close>
  A comparison with \<open>NaN\<close> is false, so an invalid date on either side ends the loop.
  Every date pushed is valid: the list holds time values. (Version 2 throws a
  \<open>RangeError\<close> where this one returns the empty list; \<open>getCalendarGrid\<close> fails in both.)
\<close>

function (sequential) each_day_loop :: "Date \<Rightarrow> Date \<Rightarrow> int list" where
  "each_day_loop (TimeValue t) (TimeValue e) =
     (if t \<le> e
      then t # each_day_loop (setHours_0 (setDate (TimeValue t) (DateFromTime t + 1))) (TimeValue e)
      else [])"
| "each_day_loop _ _ = []"
  by pat_completeness auto

fun later_than :: "Date \<Rightarrow> Date \<Rightarrow> bool" where
  "later_than (TimeValue a) (TimeValue b) = (b < a)"
| "later_than _ _ = False"

definition eachDayOfInterval :: "Date \<Rightarrow> Date \<Rightarrow> int list" where
  "eachDayOfInterval start end' =
     (let reversed = later_than start end';
          endTime = (if reversed then start else end');
          currentDate = setHours_0 (if reversed then end' else start);
          dates = each_day_loop currentDate endTime
      in if reversed then rev dates else dates)"

text \<open>
  \<open>differenceInDays\<close>, the number of full days between two dates:
  \<^verbatim>\<open>
  const sign = compareLocalAsc(_dateLeft, _dateRight);
  const difference = Math.abs(differenceInCalendarDays(_dateLeft, _dateRight));
  _dateLeft.setDate(_dateLeft.getDate() - sign * difference);
  const isLastDayNotFull = Number(compareLocalAsc(_dateLeft, _dateRight) === -sign);
  const result = sign * (difference - isLastDayNotFull);
  return result === 0 ? 0 : result;
  \<close>
  \<open>compareLocalAsc\<close> compares the local fields of two dates from the year down to the
  millisecond, which is the order of their local time values.
  \<open>differenceInCalendarDays\<close> is \<open>Math.round\<close> of the difference of the two local
  midnights divided by the length of a day; that difference is a whole number of days,
  so the quotient is exact. On an invalid date every field is \<open>NaN\<close> and so is the
  result: \<open>None\<close> here.
\<close>

definition compareLocalAsc :: "int \<Rightarrow> int \<Rightarrow> int" where
  "compareLocalAsc dateLeft dateRight =
     (let diff = dateLeft - dateRight
      in if diff < 0 then - 1 else if diff > 0 then 1 else diff)"

definition startOfDay :: "int \<Rightarrow> int" where
  "startOfDay t = MakeDate (Day t) 0"

definition differenceInCalendarDays :: "int \<Rightarrow> int \<Rightarrow> int" where
  "differenceInCalendarDays dateLeft dateRight =
     (startOfDay dateLeft - startOfDay dateRight) div msPerDay"

fun differenceInDays :: "Date \<Rightarrow> Date \<Rightarrow> int option" where
  "differenceInDays (TimeValue l) (TimeValue r) =
     (let sign = compareLocalAsc l r;
          difference = \<bar>differenceInCalendarDays l r\<bar>;
          dateLeft = setDate (TimeValue l) (DateFromTime l - sign * difference);
          isLastDayNotFull =
            (case dateLeft of
               InvalidDate \<Rightarrow> 0
             | TimeValue l' \<Rightarrow> if compareLocalAsc l' r = - sign then 1 else 0)
      in Some (sign * (difference - isLastDayNotFull)))"
| "differenceInDays _ _ = None"

section \<open>CalendarGridBuilder: \<open>getMonthDays\<close> and \<open>getCalendarGrid\<close>\<close>

text \<open>
  \<^verbatim>\<open>
  export function getMonthDays(year: number, month: number): Date[] {
    const start = new Date(year, month, 1);
    const end = new Date(year, month + 1, 0);
    return eachDayOfInterval({ start, end });
  }
  \<close>
  Year and month are integers.
\<close>

definition getMonthDays :: "int \<Rightarrow> int \<Rightarrow> int list" where
  "getMonthDays year month =
     (let start = new_Date year month 1;
          end' = new_Date year (month + 1) 0
      in eachDayOfInterval start end')"

text \<open>
  \<^verbatim>\<open>
  export function getCalendarGrid(year: number, month: number): (Date | null)[][] {
    const days = getMonthDays(year, month);
    const firstDayOfWeek = days[0].getDay(); // 0 = Sunday
    const grid: (Date | null)[][] = [];
    let week: (Date | null)[] = [];
    // pad start
    for (let i = 0; i < firstDayOfWeek; i++) {
      week.push(null);
    }
    for (const d of days) {
      week.push(d);
      if (week.length === 7) {
        grid.push(week);
        week = [];
      }
    }
    // pad end
    if (week.length > 0) {
      while (week.length < 7) week.push(null);
      grid.push(week);
    }
    return grid;
  }
  \<close>
  A slot is \<open>None\<close> (\<open>null\<close>) or the time value of a date. The three loops are
  \<open>pad_start\<close>, \<open>fill_weeks\<close> (with the week being filled and the grid so far as its
  state) and \<open>pad_end\<close>. On an empty \<open>days\<close> the read \<open>days[0].getDay()\<close> throws a
  \<open>TypeError\<close>: the only failing branch.
\<close>

datatype error = TypeError

type_synonym week = "int option list"

fun pad_start :: "nat \<Rightarrow> week \<Rightarrow> week" where
  "pad_start 0 week = week"
| "pad_start (Suc n) week = pad_start n (week @ [None])"

fun fill_weeks :: "int list \<Rightarrow> week \<Rightarrow> week list \<Rightarrow> week \<times> week list" where
  "fill_weeks [] week grid = (week, grid)"
| "fill_weeks (d # ds) week grid =
     (let week = week @ [Some d]
      in if length week = 7 then fill_weeks ds [] (grid @ [week])
         else fill_weeks ds week grid)"

function pad_end :: "week \<Rightarrow> week" where
  "pad_end week = (if length week < 7 then pad_end (week @ [None]) else week)"
  by pat_completeness auto
termination
  by (relation "measure (\<lambda>week. 7 - length week)") auto

declare pad_end.simps [simp del]

definition getCalendarGrid :: "int \<Rightarrow> int \<Rightarrow> error + week list" where
  "getCalendarGrid year month =
     (let days = getMonthDays year month
      in case days of
           [] \<Rightarrow> Inl TypeError
         | d0 # _ \<Rightarrow>
             let firstDayOfWeek = getDay d0;
                 week = pad_start (nat firstDayOfWeek) [];
                 (week, grid) = fill_weeks days week []
             in Inr (if length week > 0 then grid @ [pad_end week] else grid))"

subsection \<open>The grid as the specification describes it\<close>

text \<open>
  The number of days of month \<open>m\<close> (0 to 11) of year \<open>y\<close>, and the dates of that month in
  ascending order: local midnight of day 1, 2, ... of the month.
\<close>

definition days_in_month :: "int \<Rightarrow> int \<Rightarrow> int" where
  "days_in_month y m =
     (if m = 1 then (if DaysInYear y = 366 then 29 else 28)
      else if m = 3 \<or> m = 5 \<or> m = 8 \<or> m = 10 then 30
      else 31)"

definition month_dates :: "int \<Rightarrow> int \<Rightarrow> int list" where
  "month_dates y m = map (\<lambda>i. MakeDate (MakeDay y m (1 + int i)) 0) [0..<nat (days_in_month y m)]"

text \<open>
  The years of which every month lies inside the range of \<open>Date\<close>, whatever the zone.
  (The first and the last year that \<open>Date\<close> reaches, \<open>-271821\<close> and 275760, are cut by the
  bound and are left out.)
\<close>

definition year_in_range :: "int \<Rightarrow> bool" where
  "year_in_range y = (- 271820 \<le> y \<and> y \<le> 275759)"

text \<open>Cutting a list into rows of seven; the last row is shorter if the list runs out.\<close>

function rows_of_7 :: "'a list \<Rightarrow> 'a list list" where
  "rows_of_7 xs = (if xs = [] then [] else take 7 xs # rows_of_7 (drop 7 xs))"
  by pat_completeness auto
termination
  by (relation "measure length") auto

declare rows_of_7.simps [simp del]

text \<open>
  The grid in the specification's words: as many empty slots as the weekday index of the
  first day of the month, then the dates of the month, then empty slots up to a
  multiple of seven, in rows of seven.
\<close>

definition trailing_padding :: "int \<Rightarrow> int \<Rightarrow> nat" where
  "trailing_padding y m =
     (7 - (nat (WeekDay (MakeDate (MakeDay y m 1) 0)) + length (month_dates y m)) mod 7) mod 7"

definition grid_reference :: "int \<Rightarrow> int \<Rightarrow> week list" where
  "grid_reference y m =
     (let w = nat (WeekDay (MakeDate (MakeDay y m 1) 0));
          slots = replicate w None @ map Some (month_dates y m);
          padded = slots @ replicate ((7 - length slots mod 7) mod 7) None
      in rows_of_7 padded)"

text \<open>The dates of the non-empty slots of a row or of a flattened grid, in order.\<close>

fun non_empty_slots :: "'a option list \<Rightarrow> 'a list" where
  "non_empty_slots [] = []"
| "non_empty_slots (None # xs) = non_empty_slots xs"
| "non_empty_slots (Some d # xs) = d # non_empty_slots xs"

section \<open>PriorityClassifier: \<open>calculatePriority\<close>\<close>

text \<open>
  \<^verbatim>\<open>
  export type PriorityLevel = 'high' | 'medium' | 'low';

  export function calculatePriority(dueDate: string | null | undefined): PriorityLevel {
    if (!dueDate) return 'low';
    const today = new Date();
    today.setHours(0, 0, 0, 0);
    const due = parseISO(dueDate);
    const daysUntil = differenceInDays(due, today);
    if (daysUntil <= 3) return 'high';
    if (daysUntil <= 7) return 'medium';
    return 'low';
  }
  \<close>
  The argument is \<open>None\<close> for \<open>null\<close> and \<open>undefined\<close>; the empty string is falsy too. The
  two inputs the function reads from its environment are parameters of the model: \<open>now\<close>,
  the time value of \<open>new Date()\<close>, and \<open>parseISO\<close>, the parser of \<open>date-fns\<close>, which returns
  a date or an invalid date and never throws. \<open>daysUntil\<close> is a number or \<open>NaN\<close> (\<open>None\<close>),
  and a comparison with \<open>NaN\<close> is false.
\<close>

datatype PriorityLevel = high | medium | low

fun number_le :: "int option \<Rightarrow> int \<Rightarrow> bool" where
  "number_le None k = False"
| "number_le (Some n) k = (n \<le> k)"

definition calculatePriority :: "(string \<Rightarrow> Date) \<Rightarrow> int \<Rightarrow> string option \<Rightarrow> PriorityLevel" where
  "calculatePriority parseISO now dueDate =
     (case dueDate of
        None \<Rightarrow> low
      | Some s \<Rightarrow>
          if s = [] then low
          else
            let today = setHours_0 (TimeValue now);
                due = parseISO s;
                daysUntil = differenceInDays due today
            in if number_le daysUntil 3 then high
               else if number_le daysUntil 7 then medium
               else low)"

text \<open>
  The time values a \<open>Date\<close> can hold, and the whole number of days between two of them:
  the quotient of their difference by the length of a day, rounded towards zero.
\<close>

definition valid_time :: "int \<Rightarrow> bool" where
  "valid_time t = (\<bar>t\<bar> \<le> 8640000000000000)"

definition whole_days_between :: "int \<Rightarrow> int \<Rightarrow> int" where
  "whole_days_between a b =
     (if b \<le> a then (a - b) div msPerDay else - ((b - a) div msPerDay))"

text \<open>
  One form that \<open>parseISO\<close> reads, for running the model on strings: the calendar date
  \<open>YYYY-MM-DD\<close> that the date inputs of the application store, parsed to local midnight
  of that day, and invalid when the month or the day is out of range. The theorems
  on \<open>calculatePriority\<close> hold for every parser; this one instantiates them.
\<close>

definition parseISO_calendar_date :: "string \<Rightarrow> Date" where
  "parseISO_calendar_date s =
     (if length s = 10 \<and> s ! 4 = CHR ''-'' \<and> s ! 7 = CHR ''-''
         \<and> list_all is_digit (take 4 s) \<and> list_all is_digit (take 2 (drop 5 s))
         \<and> list_all is_digit (drop 8 s)
      then
        let year = Number (take 4 s);
            month = Number (take 2 (drop 5 s)) - 1;
            day = Number (drop 8 s)
        in if 0 \<le> month \<and> month \<le> 11 \<and> 1 \<le> day \<and> day \<le> days_in_month year month
           then TimeClip (MakeDate (MakeDay year month day) 0)
           else InvalidDate
      else InvalidDate)"

section \<open>Lemmas on \<open>calculateHours\<close>\<close>

lemma is_digit_not_colon: "is_digit c \<Longrightarrow> c \<noteq> CHR '':''"
  by (auto simp: is_digit_def)

lemma digit_value_range: "is_digit c \<Longrightarrow> 0 \<le> digit_value c \<and> digit_value c \<le> 9"
  by (auto simp: is_digit_def digit_value_def)

lemma test_hhmm_shape:
  assumes "test_hhmm s"
  obtains a b c d where "s = [a, b, CHR '':'', c, d]"
    and "is_digit a" and "is_digit b" and "is_digit c" and "is_digit d"
  using assms by (cases s rule: test_hhmm.cases) auto

lemma split_hhmm:
  assumes "is_digit a" "is_digit b" "is_digit c" "is_digit d"
  shows "split [a, b, CHR '':'', c, d] CHR '':'' = [[a, b], [c, d]]"
  using assms by (simp add: split_def is_digit_not_colon)

lemma Number_two_digits: "Number [a, b] = 10 * digit_value a + digit_value b"
  by (simp add: Number_def)

lemma parsed_clock_minutes:
  assumes "test_hhmm s"
  shows "hours_minutes (map Number (split s CHR '':''))
           = (10 * digit_value (s ! 0) + digit_value (s ! 1),
              10 * digit_value (s ! 3) + digit_value (s ! 4))"
proof -
  from assms obtain a b c d where s: "s = [a, b, CHR '':'', c, d]"
    and dg: "is_digit a" "is_digit b" "is_digit c" "is_digit d"
    by (rule test_hhmm_shape)
  have "split s CHR '':'' = [[a, b], [c, d]]"
    unfolding s using dg by (rule split_hhmm)
  then show ?thesis
    by (simp add: s Number_two_digits)
qed

lemma Math_round_fifteenths: "Math_round (of_int t / 15) = (2 * t + 15) div 30"
proof -
  have "(of_int t / 15 + 1 / 2 :: rat) = of_int (2 * t + 15) / of_int 30"
    by simp
  then show ?thesis
    unfolding Math_round_def by (simp only: floor_divide_of_int_eq)
qed

lemma nearest_quarter_eq: "nearest_quarter t = 15 * ((2 * t + 15) div 30)"
proof -
  define q where "q = t div 15"
  define r where "r = t mod 15"
  have t: "t = 15 * q + r" and r: "0 \<le> r" "r < 15"
    by (simp_all add: q_def r_def)
  show ?thesis
  proof (cases "15 \<le> 2 * r")
    case True
    have "(2 * t + 15) div 30 = q + 1"
      by (rule int_div_pos_eq [where r = "2 * r - 15"]) (use True r t in simp_all)
    thus ?thesis
      using True by (simp add: nearest_quarter_def r_def [symmetric]) (simp add: t)
  next
    case False
    have "(2 * t + 15) div 30 = q"
      by (rule int_div_pos_eq [where r = "2 * r + 15"]) (use False r t in simp_all)
    thus ?thesis
      using False by (simp add: nearest_quarter_def r_def [symmetric]) (simp add: t)
  qed
qed

lemma nearest_quarter_is_nearest:
  "nearest_quarter t mod 15 = 0 \<and> \<bar>nearest_quarter t - t\<bar> \<le> 7"
proof -
  have r: "0 \<le> t mod 15" "t mod 15 < 15"
    by simp_all
  have down: "(t - t mod 15) mod 15 = 0"
    by (simp add: mod_diff_right_eq)
  then have "(t - t mod 15 + 15) mod 15 = 0"
    by (metis mod_add_self2)
  with down r show ?thesis
    by (auto simp: nearest_quarter_def Let_def)
qed

text \<open>The function on well-shaped strings, with the parsing done.\<close>

lemma calculateHours_shaped:
  assumes "test_hhmm start" "test_hhmm finish"
  shows "calculateHours start finish lunchMinutes =
           of_int (Math_round (of_int (Math_max 0 (shift_minutes start finish - lunchMinutes)) / 15))
             * 15 / 60"
  using assms
  by (simp add: calculateHours_def parsed_clock_minutes shift_minutes_def clock_minutes_def
      Let_def)

lemma quarter_hours: "(of_int (Math_round (of_int t / 15)) * 15 / 60 :: rat) = of_int (nearest_quarter t) / 60"
  by (simp add: Math_round_fifteenths nearest_quarter_eq)

lemma calculateHours_nonneg: "0 \<le> calculateHours start finish lunchMinutes"
proof (cases "test_hhmm start \<and> test_hhmm finish")
  case True
  have "0 \<le> (2 * Math_max 0 (shift_minutes start finish - lunchMinutes) + 15) div 30"
    by (simp add: Math_max_def pos_imp_zdiv_nonneg_iff)
  with True show ?thesis
    by (simp add: calculateHours_shaped Math_round_fifteenths)
next
  case False
  then show ?thesis by (auto simp: calculateHours_def)
qed

section \<open>Lemmas on the date model\<close>

subsection \<open>Years\<close>

lemma div_step:
  fixes y n :: int
  assumes "0 < n"
  shows "y div n = (y - 1) div n + (if y mod n = 0 then 1 else 0)"
proof (cases "y mod n = 0")
  case True
  have "(y - 1) div n = y div n - 1"
  proof (rule int_div_pos_eq [where r = "n - 1"])
    have "y = n * (y div n)" using True by (metis add.right_neutral mult_div_mod_eq)
    then show "y - 1 = n * (y div n - 1) + (n - 1)"
      by (simp add: algebra_simps)
  qed (use assms in simp_all)
  with True show ?thesis by simp
next
  case False
  have pos: "0 < y mod n" using False assms
    by (simp add: order_less_le)
  have "(y - 1) div n = y div n"
  proof (rule int_div_pos_eq [where r = "y mod n - 1"])
    show "y - 1 = n * (y div n) + (y mod n - 1)"
      by (simp add: algebra_simps)
  next
    show "0 \<le> y mod n - 1"
      using pos by simp
  next
    show "y mod n - 1 < n"
      using pos_mod_bound [OF assms, of y] by linarith
  qed
  with False show ?thesis by simp
qed

lemma DayFromYear_alt:
  "DayFromYear y = 365 * (y - 1970) + (y - 1) div 4 - (y - 1) div 100 + (y - 1) div 400 - 477"
proof -
  have a: "(y - 1969) div 4 = (y - 1) div 4 - 492"
    using div_mult_self4 [of 4 "- 492" "y - 1"] by simp
  have b: "(y - 1901) div 100 = (y - 1) div 100 - 19"
    using div_mult_self4 [of 100 "- 19" "y - 1"] by simp
  have c: "(y - 1601) div 400 = (y - 1) div 400 - 4"
    using div_mult_self4 [of 400 "- 4" "y - 1"] by simp
  show ?thesis
    by (simp add: DayFromYear_def a b c)
qed

lemma mod_100_imp_4: "(y::int) mod 100 = 0 \<Longrightarrow> y mod 4 = 0"
  using mod_mod_cancel [of 4 100 y] by simp

lemma mod_400_imp_100: "(y::int) mod 400 = 0 \<Longrightarrow> y mod 100 = 0"
  using mod_mod_cancel [of 100 400 y] by simp

lemma DayFromYear_Suc: "DayFromYear (y + 1) = DayFromYear y + DaysInYear y"
proof -
  have "DayFromYear (y + 1) = 365 * (y - 1969) + y div 4 - y div 100 + y div 400 - 477"
    by (simp add: DayFromYear_alt)
  also have "\<dots> = DayFromYear y + 365
      + (if y mod 4 = 0 then 1 else 0) - (if y mod 100 = 0 then 1 else 0)
      + (if y mod 400 = 0 then 1 else 0)"
    unfolding DayFromYear_alt [of y]
    by (subst div_step [of 4 y], simp, subst div_step [of 100 y], simp,
        subst div_step [of 400 y], simp, simp)
  also have "\<dots> = DayFromYear y + DaysInYear y"
    using mod_100_imp_4 [of y] mod_400_imp_100 [of y]
    by (auto simp: DaysInYear_def)
  finally show ?thesis .
qed

lemma DaysInYear_cases: "DaysInYear y = 365 \<or> DaysInYear y = 366"
  by (simp add: DaysInYear_def)

lemma DayFromYear_mono_aux: "y \<le> y' \<Longrightarrow> DayFromYear y + 365 * (y' - y) \<le> DayFromYear y'"
proof (induction y' rule: int_ge_induct)
  case base
  then show ?case by simp
next
  case (step i)
  have "DayFromYear (i + 1) = DayFromYear i + DaysInYear i"
    by (rule DayFromYear_Suc)
  with step DaysInYear_cases [of i] show ?case
    by (auto simp: algebra_simps)
qed

lemma DayFromYear_strict_mono: "y < y' \<Longrightarrow> DayFromYear y < DayFromYear y'"
  using DayFromYear_mono_aux [of y y'] by simp

lemma DayFromYear_mono: "y \<le> y' \<Longrightarrow> DayFromYear y \<le> DayFromYear y'"
  using DayFromYear_mono_aux [of y y'] by simp

lemma div_bounds:
  fixes x n :: int
  assumes "0 < n"
  shows "n * (x div n) \<le> x \<and> x \<le> n * (x div n) + n - 1"
proof -
  have "x = n * (x div n) + x mod n" by simp
  moreover have "0 \<le> x mod n" "x mod n < n" using assms by simp_all
  ultimately show ?thesis
    by linarith
qed

lemma DayFromYear_lower: "146097 * (y - 1970) - 506 \<le> 400 * DayFromYear y"
proof -
  define a where "a = (y - 1969) div 4"
  define b where "b = (y - 1901) div 100"
  define c where "c = (y - 1601) div 400"
  have "y - 1969 \<le> 4 * a + 3" "100 * b \<le> y - 1901" "y - 1601 \<le> 400 * c + 399"
    using div_bounds [of 4 "y - 1969"] div_bounds [of 100 "y - 1901"] div_bounds [of 400 "y - 1601"]
    by (simp_all add: a_def b_def c_def)
  then have "100 * (y - 1969) \<le> 400 * a + 300" "400 * b \<le> 4 * (y - 1901)" "y - 1601 \<le> 400 * c + 399"
    by simp_all
  then have "146097 * (y - 1970) - 506 \<le> 400 * (365 * (y - 1970) + a - b + c)"
    by (simp add: algebra_simps)
  then show ?thesis
    by (simp add: DayFromYear_def a_def b_def c_def)
qed

lemma DayFromYear_upper: "400 * DayFromYear y \<le> 146097 * (y - 1970) + 589"
proof -
  define a where "a = (y - 1969) div 4"
  define b where "b = (y - 1901) div 100"
  define c where "c = (y - 1601) div 400"
  have "4 * a \<le> y - 1969" "y - 1901 \<le> 100 * b + 99" "400 * c \<le> y - 1601"
    using div_bounds [of 4 "y - 1969"] div_bounds [of 100 "y - 1901"] div_bounds [of 400 "y - 1601"]
    by (simp_all add: a_def b_def c_def)
  then have "400 * a \<le> 100 * (y - 1969)" "4 * (y - 1901) \<le> 400 * b + 396" "400 * c \<le> y - 1601"
    by simp_all
  then have "400 * (365 * (y - 1970) + a - b + c) \<le> 146097 * (y - 1970) + 589"
    by (simp add: algebra_simps)
  then show ?thesis
    by (simp add: DayFromYear_def a_def b_def c_def)
qed

lemma YearFromTime_bounds:
  "DayFromYear (YearFromTime t) \<le> Day t \<and> Day t < DayFromYear (YearFromTime t + 1)"
proof -
  define d where "d = Day t"
  define e where "e = (400 * d) div 146097"
  have e: "146097 * e \<le> 400 * d" "400 * d \<le> 146097 * e + 146096"
    using div_bounds [of 146097 "400 * d"] by (simp_all add: e_def)
  have Y: "YearFromTime t =
      (if d < DayFromYear (1970 + e) then 1970 + e - 1
       else if DayFromYear (1970 + e + 1) \<le> d then 1970 + e + 1 else 1970 + e)"
    by (simp add: YearFromTime_def d_def e_def Let_def)
  consider (lo) "d < DayFromYear (1970 + e)"
    | (hi) "\<not> d < DayFromYear (1970 + e)" "DayFromYear (1970 + e + 1) \<le> d"
    | (mid) "\<not> d < DayFromYear (1970 + e)" "\<not> DayFromYear (1970 + e + 1) \<le> d"
    by blast
  then show ?thesis
  proof cases
    case lo
    have "400 * DayFromYear (1970 + e - 1) \<le> 146097 * (e - 1) + 589"
      using DayFromYear_upper [of "1970 + e - 1"] by simp
    with e have "400 * DayFromYear (1970 + e - 1) \<le> 400 * d"
      by (simp add: algebra_simps)
    then have "DayFromYear (1970 + e - 1) \<le> d"
      by simp
    with lo show ?thesis by (simp add: Y d_def [symmetric])
  next
    case hi
    have "146097 * (e + 2) - 506 \<le> 400 * DayFromYear (1970 + e + 1 + 1)"
      using DayFromYear_lower [of "1970 + e + 1 + 1"] by simp
    with e have "400 * d < 400 * DayFromYear (1970 + e + 1 + 1)"
      by (simp add: algebra_simps)
    then have "d < DayFromYear (1970 + e + 1 + 1)"
      by simp
    with hi show ?thesis by (simp add: Y d_def [symmetric])
  next
    case mid
    then show ?thesis by (simp add: Y d_def [symmetric])
  qed
qed

lemma YearFromTime_unique:
  assumes "DayFromYear y \<le> Day t" "Day t < DayFromYear (y + 1)"
  shows "YearFromTime t = y"
proof (rule ccontr)
  assume ne: "YearFromTime t \<noteq> y"
  note b = YearFromTime_bounds [of t]
  show False
  proof (cases "YearFromTime t < y")
    case True
    then have "DayFromYear (YearFromTime t + 1) \<le> DayFromYear y"
      by (intro DayFromYear_mono) simp
    with b assms show False by linarith
  next
    case False
    with ne have "DayFromYear (y + 1) \<le> DayFromYear (YearFromTime t)"
      by (intro DayFromYear_mono) simp
    with b assms show False by linarith
  qed
qed

subsection \<open>Months\<close>

lemma month_cases:
  fixes mn :: int
  assumes "0 \<le> mn" "mn \<le> 11"
  shows "mn = 0 \<or> mn = 1 \<or> mn = 2 \<or> mn = 3 \<or> mn = 4 \<or> mn = 5
    \<or> mn = 6 \<or> mn = 7 \<or> mn = 8 \<or> mn = 9 \<or> mn = 10 \<or> mn = 11"
proof -
  have "mn = 0 \<or> mn = 1 \<or> mn = 2 \<or> mn = 3 \<or> mn = 4 \<or> mn = 5 \<or> 6 \<le> mn"
    using assms by arith
  moreover have "6 \<le> mn \<Longrightarrow> mn = 6 \<or> mn = 7 \<or> mn = 8 \<or> mn = 9 \<or> mn = 10 \<or> mn = 11"
    using assms by arith
  ultimately show ?thesis
    by blast
qed

lemma MonthFromTime_range: "0 \<le> MonthFromTime t \<and> MonthFromTime t \<le> 11"
  by (simp add: MonthFromTime_def Let_def)

lemma month_start_plus_date:
  "first_day_of_month (MonthFromTime t) (InLeapYear t) + DateFromTime t - 1 = DayWithinYear t"
  by (simp add: MonthFromTime_def DateFromTime_def first_day_of_month_def Let_def)

lemma MakeDay_of_fields:
  "MakeDay (YearFromTime t) (MonthFromTime t) (DateFromTime t + k) = Day t + k"
proof -
  have "MonthFromTime t div 12 = 0" "MonthFromTime t mod 12 = MonthFromTime t"
    using MonthFromTime_range [of t] by simp_all
  then have "MakeDay (YearFromTime t) (MonthFromTime t) (DateFromTime t + k)
      = DayFromYear (YearFromTime t)
        + (first_day_of_month (MonthFromTime t) (InLeapYear t) + DateFromTime t - 1) + k"
    by (simp add: MakeDay_def InLeapYear_def)
  then show ?thesis
    by (simp only: month_start_plus_date) (simp add: DayWithinYear_def)
qed

lemma first_day_of_month_simps:
  "first_day_of_month 0 l = 0"
  "first_day_of_month 1 l = 31"
  "first_day_of_month 2 l = 59 + l"
  "first_day_of_month 3 l = 90 + l"
  "first_day_of_month 4 l = 120 + l"
  "first_day_of_month 5 l = 151 + l"
  "first_day_of_month 6 l = 181 + l"
  "first_day_of_month 7 l = 212 + l"
  "first_day_of_month 8 l = 243 + l"
  "first_day_of_month 9 l = 273 + l"
  "first_day_of_month 10 l = 304 + l"
  "first_day_of_month 11 l = 334 + l"
  by (simp_all add: first_day_of_month_def)

lemma days_in_month_simps:
  "days_in_month y 0 = 31"
  "days_in_month y 1 = (if DaysInYear y = 366 then 29 else 28)"
  "days_in_month y 2 = 31"
  "days_in_month y 3 = 30"
  "days_in_month y 4 = 31"
  "days_in_month y 5 = 30"
  "days_in_month y 6 = 31"
  "days_in_month y 7 = 31"
  "days_in_month y 8 = 30"
  "days_in_month y 9 = 31"
  "days_in_month y 10 = 30"
  "days_in_month y 11 = 31"
  by (simp_all add: days_in_month_def)

lemma month_end:
  assumes "0 \<le> mn" "mn \<le> 11"
  shows "first_day_of_month mn (if DaysInYear y = 366 then 1 else 0) + days_in_month y mn
           = (if mn = 11 then DaysInYear y
              else first_day_of_month (mn + 1) (if DaysInYear y = 366 then 1 else 0))"
  using month_cases [OF assms] DaysInYear_cases [of y]
  by (elim disjE) (simp_all add: first_day_of_month_simps days_in_month_simps)

lemma days_in_month_range: "28 \<le> days_in_month y mn \<and> days_in_month y mn \<le> 31"
  by (simp add: days_in_month_def)

lemma first_day_of_month_nonneg: "0 \<le> l \<Longrightarrow> 0 \<le> first_day_of_month mn l"
  by (simp add: first_day_of_month_def)

lemma month_within_year:
  assumes "0 \<le> mn" "mn \<le> 11"
  shows "first_day_of_month mn (if DaysInYear y = 366 then 1 else 0) + days_in_month y mn
           \<le> DaysInYear y"
  using month_cases [OF assms] DaysInYear_cases [of y]
  by (elim disjE) (simp_all add: first_day_of_month_simps days_in_month_simps)

text \<open>The fields of a day of month \<open>mn\<close> of year \<open>y\<close>.\<close>

lemma MonthFromTime_of_day:
  assumes mn: "0 \<le> mn" "mn \<le> 11"
    and dd: "0 \<le> dd" "dd < days_in_month y mn"
    and dwy: "DayWithinYear t = first_day_of_month mn l + dd"
    and leap: "InLeapYear t = l"
    and l: "l = (if DaysInYear y = 366 then 1 else 0)"
  shows "MonthFromTime t = mn"
  using month_cases [OF mn] dd unfolding MonthFromTime_def dwy leap Let_def
  by (elim disjE) (simp_all add: first_day_of_month_simps days_in_month_simps l split: if_splits)

lemma DateFromTime_of_day:
  assumes mn: "0 \<le> mn" "mn \<le> 11"
    and dwy: "DayWithinYear t = first_day_of_month mn l + dd"
    and leap: "InLeapYear t = l"
    and M: "MonthFromTime t = mn"
  shows "DateFromTime t = dd + 1"
  using month_cases [OF mn] unfolding DateFromTime_def dwy leap M Let_def
  by (elim disjE) (simp_all add: first_day_of_month_simps)

lemma civil_fields:
  assumes mn: "0 \<le> mn" "mn \<le> 11"
    and dd: "0 \<le> dd" "dd < days_in_month y mn"
    and t: "Day t = DayFromYear y + first_day_of_month mn (if DaysInYear y = 366 then 1 else 0) + dd"
  shows "YearFromTime t = y" and "MonthFromTime t = mn" and "DateFromTime t = dd + 1"
proof -
  let ?l = "if DaysInYear y = 366 then 1 else 0 :: int"
  have span: "first_day_of_month mn ?l + days_in_month y mn \<le> DaysInYear y"
    using mn by (rule month_within_year)
  have "0 \<le> first_day_of_month mn ?l"
    by (rule first_day_of_month_nonneg) simp
  with span dd t have "DayFromYear y \<le> Day t" "Day t < DayFromYear (y + 1)"
    by (simp_all add: DayFromYear_Suc)
  then show Y: "YearFromTime t = y"
    by (rule YearFromTime_unique)
  have dwy: "DayWithinYear t = first_day_of_month mn ?l + dd"
    by (simp add: DayWithinYear_def Y t)
  have leap: "InLeapYear t = ?l"
    by (simp add: InLeapYear_def Y)
  show M: "MonthFromTime t = mn"
    using mn dd dwy leap by (rule MonthFromTime_of_day) simp
  show "DateFromTime t = dd + 1"
    using mn dwy leap M by (rule DateFromTime_of_day)
qed

subsection \<open>Stepping a day\<close>

lemma msPerDay_pos: "0 < msPerDay"
  by (simp add: msPerDay_def)

lemma Day_midnight: "Day (d * msPerDay) = d"
  using msPerDay_pos by (simp add: Day_def)

lemma TimeWithinDay_midnight: "TimeWithinDay (d * msPerDay) = 0"
  by (simp add: TimeWithinDay_def)

lemma Day_next: "Day (t + msPerDay) = Day t + 1"
  using msPerDay_pos by (simp add: Day_def)

lemma day_decomposition: "Day t * msPerDay + TimeWithinDay t = t"
  by (simp add: Day_def TimeWithinDay_def)

lemma setDate_shift: "setDate (TimeValue t) (DateFromTime t + k) = TimeClip (t + k * msPerDay)"
proof -
  have "MakeDate (Day t + k) (TimeWithinDay t) = t + k * msPerDay"
    using day_decomposition [of t] by (simp add: MakeDate_def algebra_simps)
  then show ?thesis
    by (simp add: setDate.simps MakeDay_of_fields)
qed

lemma setDate_next: "setDate (TimeValue t) (DateFromTime t + 1) = TimeClip (t + msPerDay)"
  using setDate_shift [of t 1] by simp

lemma next_day_value:
  "setHours_0 (setDate (TimeValue t) (DateFromTime t + 1))
     = (if \<bar>t + msPerDay\<bar> > 8640000000000000 then InvalidDate
        else TimeClip ((Day t + 1) * msPerDay))"
  unfolding setDate_next by (simp add: TimeClip_def MakeDate_def Day_next)

lemma next_midnight:
  assumes "setHours_0 (setDate (TimeValue t) (DateFromTime t + 1)) = TimeValue t'"
  shows "t' = (Day t + 1) * msPerDay"
  using assms unfolding next_day_value by (simp add: TimeClip_def split: if_splits)

lemma next_midnight_later:
  assumes "setHours_0 (setDate (TimeValue t) (DateFromTime t + 1)) = TimeValue t'"
  shows "t < t'"
proof -
  have "TimeWithinDay t < msPerDay"
    using msPerDay_pos by (simp add: TimeWithinDay_def)
  with day_decomposition [of t] have "t < (Day t + 1) * msPerDay"
    by (simp add: algebra_simps)
  with next_midnight [OF assms] show ?thesis
    by simp
qed

termination each_day_loop
proof (relation "measure (\<lambda>(c, e). case c of InvalidDate \<Rightarrow> 0
    | TimeValue t \<Rightarrow> (case e of InvalidDate \<Rightarrow> 0 | TimeValue e \<Rightarrow> nat (e - t + 1)))")
  show "wf (measure (\<lambda>(c, e). case c of InvalidDate \<Rightarrow> 0
    | TimeValue t \<Rightarrow> (case e of InvalidDate \<Rightarrow> 0 | TimeValue e \<Rightarrow> nat (e - t + 1))))"
    by simp
next
  fix t e :: int
  assume le: "t \<le> e"
  show "((setHours_0 (setDate (TimeValue t) (DateFromTime t + 1)), TimeValue e),
         (TimeValue t, TimeValue e))
        \<in> measure (\<lambda>(c, e). case c of InvalidDate \<Rightarrow> 0
    | TimeValue t \<Rightarrow> (case e of InvalidDate \<Rightarrow> 0 | TimeValue e \<Rightarrow> nat (e - t + 1)))"
  proof (cases "setHours_0 (setDate (TimeValue t) (DateFromTime t + 1))")
    case InvalidDate
    with le show ?thesis by simp
  next
    case (TimeValue t')
    from next_midnight_later [OF this] le TimeValue show ?thesis
      by simp
  qed
qed

text \<open>The loop from one midnight to another gives every midnight between them.\<close>

lemma each_day_loop_midnights:
  assumes "\<bar>e * msPerDay\<bar> \<le> 8640000000000000" "- 8640000000000000 \<le> d * msPerDay"
  shows "each_day_loop (TimeValue (d * msPerDay)) (TimeValue (e * msPerDay))
           = map (\<lambda>i. (d + int i) * msPerDay) [0..<nat (e - d + 1)]"
  using assms(2)
proof (induction "nat (e - d + 1)" arbitrary: d)
  case 0
  then have "e < d" by simp
  then have "\<not> d * msPerDay \<le> e * msPerDay"
    using msPerDay_pos by simp
  with 0 show ?case by simp
next
  case (Suc n)
  then have de: "d \<le> e" and n: "n = nat (e - (d + 1) + 1)"
    by simp_all
  have le: "d * msPerDay \<le> e * msPerDay"
    using de msPerDay_pos by simp
  let ?next = "setHours_0 (setDate (TimeValue (d * msPerDay))
      (DateFromTime (d * msPerDay) + 1))"
  have tail: "each_day_loop ?next (TimeValue (e * msPerDay))
      = map (\<lambda>i. (d + 1 + int i) * msPerDay) [0..<n]"
  proof (cases "d = e")
    case True
    then have n0: "n = 0" using n by simp
    have "each_day_loop ?next (TimeValue (e * msPerDay)) = []"
    proof (cases ?next)
      case InvalidDate
      then show ?thesis by simp
    next
      case (TimeValue t')
      from next_midnight_later [OF this] True have "\<not> t' \<le> e * msPerDay"
        by simp
      with TimeValue show ?thesis by simp
    qed
    with n0 show ?thesis by simp
  next
    case False
    with de have d1: "d + 1 \<le> e" by simp
    then have up: "(d + 1) * msPerDay \<le> e * msPerDay"
      using msPerDay_pos by simp
    have lo: "- 8640000000000000 \<le> (d + 1) * msPerDay"
      using Suc.prems msPerDay_pos by (simp add: algebra_simps)
    from up lo assms(1) have ok: "\<not> \<bar>(d + 1) * msPerDay\<bar> > 8640000000000000"
      by simp
    then have ok': "\<not> \<bar>d * msPerDay + msPerDay\<bar> > 8640000000000000"
      by (simp add: algebra_simps)
    have nx: "?next = TimeValue ((d + 1) * msPerDay)"
      unfolding next_day_value using ok ok' by (simp add: TimeClip_def Day_midnight)
    have "each_day_loop (TimeValue ((d + 1) * msPerDay)) (TimeValue (e * msPerDay))
        = map (\<lambda>i. (d + 1 + int i) * msPerDay) [0..<nat (e - (d + 1) + 1)]"
      using n lo by (rule Suc.hyps(1))
    then show ?thesis
      by (simp only: nx n [symmetric])
  qed
  have "[0..<nat (e - d + 1)] = 0 # map Suc [0..<n]"
    using Suc.hyps(2) [symmetric] by (simp add: upt_conv_Cons map_Suc_upt)
  then have "map (\<lambda>i. (d + int i) * msPerDay) [0..<nat (e - d + 1)]
      = d * msPerDay # map (\<lambda>i. (d + 1 + int i) * msPerDay) [0..<n]"
    by (simp add: algebra_simps)
  with le tail show ?case
    by simp
qed

section \<open>Lemmas on \<open>getMonthDays\<close> and \<open>getCalendarGrid\<close>\<close>

subsection \<open>The days of a month\<close>

lemma next_month:
  fixes m :: int
  shows "(m + 1) div 12 = (if m mod 12 = 11 then m div 12 + 1 else m div 12)"
    and "(m + 1) mod 12 = (if m mod 12 = 11 then 0 else m mod 12 + 1)"
proof -
  have m: "m = 12 * (m div 12) + m mod 12" and r: "0 \<le> m mod 12" "m mod 12 < 12"
    by simp_all
  show "(m + 1) div 12 = (if m mod 12 = 11 then m div 12 + 1 else m div 12)"
  proof (cases "m mod 12 = 11")
    case True
    have "(m + 1) div 12 = m div 12 + 1"
      by (rule int_div_pos_eq [where r = 0]) (use m True in simp_all)
    with True show ?thesis by simp
  next
    case False
    have "(m + 1) div 12 = m div 12"
      by (rule int_div_pos_eq [where r = "m mod 12 + 1"]) (use m r False in simp_all)
    with False show ?thesis by simp
  qed
  show "(m + 1) mod 12 = (if m mod 12 = 11 then 0 else m mod 12 + 1)"
  proof (cases "m mod 12 = 11")
    case True
    have "(m + 1) mod 12 = 0"
      by (rule int_mod_pos_eq [where q = "m div 12 + 1"]) (use m True in simp_all)
    with True show ?thesis by simp
  next
    case False
    have "(m + 1) mod 12 = m mod 12 + 1"
      by (rule int_mod_pos_eq [where q = "m div 12"]) (use m r False in simp_all)
    with False show ?thesis by simp
  qed
qed

lemma MakeDay_last:
  "MakeDay y (m + 1) 0 = MakeDay y m 1 + days_in_month (y + m div 12) (m mod 12) - 1"
proof -
  let ?Y = "y + m div 12"
  let ?l = "if DaysInYear ?Y = 366 then 1 else 0 :: int"
  have mn: "0 \<le> m mod 12" "m mod 12 \<le> 11"
    by simp_all
  note me = month_end [OF mn, of ?Y]
  show ?thesis
  proof (cases "m mod 12 = 11")
    case True
    then have "MakeDay y (m + 1) 0 = DayFromYear (?Y + 1) - 1"
      by (simp add: MakeDay_def Let_def next_month
          first_day_of_month_simps add.assoc)
    also have "\<dots> = DayFromYear ?Y + DaysInYear ?Y - 1"
      by (simp add: DayFromYear_Suc)
    finally show ?thesis
      using me True by (simp add: MakeDay_def Let_def)
  next
    case False
    then have nx: "(m + 1) div 12 = m div 12" "(m + 1) mod 12 = m mod 12 + 1"
      by (simp_all add: next_month)
    have "MakeDay y (m + 1) 0 = DayFromYear ?Y + first_day_of_month (m mod 12 + 1) ?l - 1"
      unfolding MakeDay_def Let_def nx by simp
    moreover have "MakeDay y m 1 = DayFromYear ?Y + first_day_of_month (m mod 12) ?l"
      unfolding MakeDay_def Let_def by simp
    ultimately show ?thesis
      using me False by simp
  qed
qed

lemma DayFromYear_in_range:
  assumes "- 271820 \<le> Y" "Y \<le> 275759"
  shows "- 99999800 \<le> DayFromYear Y" and "DayFromYear Y \<le> 99999400"
proof -
  have "146097 * (- 273790) \<le> 146097 * (Y - 1970)"
    using assms(1) by simp
  with DayFromYear_lower [of Y] have "400 * (- 99999800) \<le> 400 * DayFromYear Y"
    by simp
  then show "- 99999800 \<le> DayFromYear Y"
    by simp
  have "146097 * (Y - 1970) \<le> 146097 * 273789"
    using assms(2) by simp
  with DayFromYear_upper [of Y] have "400 * DayFromYear Y \<le> 400 * 99999400"
    by simp
  then show "DayFromYear Y \<le> 99999400"
    by simp
qed

lemma day_in_range:
  assumes "- 271820 \<le> Y" "Y \<le> 275759" "0 \<le> k" "k \<le> 400"
  shows "\<bar>(DayFromYear Y + k) * msPerDay\<bar> \<le> 8640000000000000"
proof -
  from DayFromYear_in_range [OF assms(1,2)] assms(3,4)
  have "- 100000000 \<le> DayFromYear Y + k" "DayFromYear Y + k \<le> 100000000"
    by simp_all
  then have "- 100000000 * msPerDay \<le> (DayFromYear Y + k) * msPerDay"
    "(DayFromYear Y + k) * msPerDay \<le> 100000000 * msPerDay"
    using msPerDay_pos by (simp_all only: mult_le_cancel_right_pos)
  then show ?thesis
    by (simp add: msPerDay_def)
qed

lemma getMonthDays_in_range:
  assumes "- 271820 \<le> MakeFullYear year + month div 12"
    and "MakeFullYear year + month div 12 \<le> 275759"
  shows "getMonthDays year month
           = month_dates (MakeFullYear year + month div 12) (month mod 12)"
proof -
  let ?Y = "MakeFullYear year + month div 12"
  let ?mn = "month mod 12"
  let ?l = "if DaysInYear ?Y = 366 then 1 else 0 :: int"
  let ?n = "days_in_month ?Y ?mn"
  define k where "k = first_day_of_month ?mn ?l"
  define d where "d = DayFromYear ?Y + k"
  have mn: "0 \<le> ?mn" "?mn \<le> 11"
    by simp_all
  have k0: "0 \<le> k"
    unfolding k_def by (rule first_day_of_month_nonneg) simp
  have "k + ?n \<le> DaysInYear ?Y"
    unfolding k_def using mn by (rule month_within_year)
  with DaysInYear_cases [of ?Y] have kn: "k + ?n \<le> 366"
    by auto
  have n: "28 \<le> ?n"
    using days_in_month_range [of ?Y ?mn] by simp
  have first: "MakeDay (MakeFullYear year) month 1 = d"
    by (simp add: MakeDay_def Let_def d_def k_def)
  have last: "MakeDay (MakeFullYear year) (month + 1) 0 = d + ?n - 1"
    by (simp add: MakeDay_last first)
  have in_d: "\<bar>d * msPerDay\<bar> \<le> 8640000000000000"
    unfolding d_def using assms k0 kn n by (intro day_in_range) simp_all
  have "\<bar>(DayFromYear ?Y + (k + ?n - 1)) * msPerDay\<bar> \<le> 8640000000000000"
    using assms k0 kn n by (intro day_in_range) simp_all
  then have in_e: "\<bar>(d + ?n - 1) * msPerDay\<bar> \<le> 8640000000000000"
    by (simp add: d_def algebra_simps)
  have start: "new_Date year month 1 = TimeValue (d * msPerDay)"
    using in_d by (simp add: new_Date_def first MakeDate_def TimeClip_def)
  have end': "new_Date year (month + 1) 0 = TimeValue ((d + ?n - 1) * msPerDay)"
    using in_e by (simp add: new_Date_def last MakeDate_def TimeClip_def)
  have "d * msPerDay \<le> (d + ?n - 1) * msPerDay"
    using n msPerDay_pos by simp
  then have fwd: "\<not> later_than (TimeValue (d * msPerDay)) (TimeValue ((d + ?n - 1) * msPerDay))"
    by simp
  have sh: "setHours_0 (TimeValue (d * msPerDay)) = TimeValue (d * msPerDay)"
    using in_d by (simp add: MakeDate_def TimeClip_def Day_midnight)
  have "getMonthDays year month
      = each_day_loop (TimeValue (d * msPerDay)) (TimeValue ((d + ?n - 1) * msPerDay))"
    unfolding getMonthDays_def eachDayOfInterval_def start end' Let_def
    using fwd by (simp only: if_False sh)
  also have "\<dots> = map (\<lambda>i. (d + int i) * msPerDay) [0..<nat (d + ?n - 1 - d + 1)]"
    using in_e in_d by (intro each_day_loop_midnights) simp_all
  also have "\<dots> = map (\<lambda>i. (d + int i) * msPerDay) [0..<nat ?n]"
    by simp
  also have "\<dots> = month_dates ?Y ?mn"
  proof -
    have "?mn div 12 = 0" "?mn mod 12 = ?mn"
      by simp_all
    then have "MakeDay ?Y ?mn (1 + x) = d + x" for x
      unfolding MakeDay_def Let_def d_def k_def by simp
    then show ?thesis
      by (simp add: month_dates_def MakeDate_def)
  qed
  finally show ?thesis .
qed

subsection \<open>The loops of \<open>getCalendarGrid\<close>\<close>

lemma pad_start_replicate: "pad_start n week = week @ replicate n None"
proof (induction n arbitrary: week)
  case 0
  show ?case by simp
next
  case (Suc n)
  have "[None] @ replicate n None = replicate (Suc n) (None :: int option)"
    by simp
  then show ?case
    unfolding pad_start.simps Suc.IH by (simp del: replicate_Suc)
qed

lemma fill_weeks_invariant:
  assumes "length week < 7" "\<forall>w \<in> set grid. length w = 7"
    and "fill_weeks ds week grid = (week', grid')"
  shows "concat grid' @ week' = concat grid @ week @ map Some ds
         \<and> length week' < 7 \<and> (\<forall>w \<in> set grid'. length w = 7)"
  using assms
proof (induction ds arbitrary: week grid)
  case Nil
  then show ?case by simp
next
  case (Cons d ds)
  show ?case
  proof (cases "length (week @ [Some d]) = 7")
    case True
    with Cons.prems(3) have run: "fill_weeks ds [] (grid @ [week @ [Some d]]) = (week', grid')"
      by (simp add: Let_def)
    have "\<forall>w \<in> set (grid @ [week @ [Some d]]). length w = 7"
      using Cons.prems(2) True by simp
    from Cons.IH [OF _ this run] show ?thesis
      by simp
  next
    case False
    with Cons.prems(3) have run: "fill_weeks ds (week @ [Some d]) grid = (week', grid')"
      by (simp add: Let_def)
    have "length (week @ [Some d]) < 7"
      using Cons.prems(1) False by simp
    from Cons.IH [OF this Cons.prems(2) run] show ?thesis
      by simp
  qed
qed

lemma pad_end_replicate:
  "length week \<le> 7 \<Longrightarrow> pad_end week = week @ replicate (7 - length week) None"
proof (induction week rule: pad_end.induct)
  case (1 week)
  show ?case
  proof (cases "length week < 7")
    case True
    then have "pad_end week = (week @ [None]) @ replicate (7 - length (week @ [None])) None"
      using 1 by (subst pad_end.simps) simp
    also have "\<dots> = week @ replicate (Suc (7 - length (week @ [None]))) None"
      by simp
    also have "Suc (7 - length (week @ [None])) = 7 - length week"
      using True by simp
    finally show ?thesis .
  next
    case False
    with 1 show ?thesis by (subst pad_end.simps) simp
  qed
qed

subsection \<open>Rows of seven\<close>

lemma rows_of_7_concat: "\<forall>w \<in> set g. length w = 7 \<Longrightarrow> rows_of_7 (concat g) = g"
proof (induction g)
  case Nil
  show ?case by (subst rows_of_7.simps) simp
next
  case (Cons w g)
  then have w: "length w = 7" and rest: "rows_of_7 (concat g) = g"
    by simp_all
  from w have "w \<noteq> []" by auto
  then have "rows_of_7 (concat (w # g)) = take 7 (w @ concat g) # rows_of_7 (drop 7 (w @ concat g))"
    by (subst rows_of_7.simps) simp
  with w rest show ?case
    by simp
qed

lemma length_concat_rows: "\<forall>w \<in> set g. length w = 7 \<Longrightarrow> length (concat g) = 7 * length g"
  by (induction g) simp_all

lemma nth_concat_rows:
  "\<forall>w \<in> set g. length w = 7 \<Longrightarrow> r < length g \<Longrightarrow> c < 7 \<Longrightarrow> concat g ! (7 * r + c) = g ! r ! c"
proof (induction g arbitrary: r)
  case Nil
  then show ?case by simp
next
  case (Cons w g)
  then have w: "length w = 7" by simp
  show ?case
  proof (cases r)
    case 0
    with Cons.prems w show ?thesis
      by (simp add: nth_append)
  next
    case (Suc r')
    with Cons.prems have "concat g ! (7 * r' + c) = g ! r' ! c"
      by (intro Cons.IH) simp_all
    moreover have "7 * r + c - 7 = 7 * r' + c" "\<not> 7 * r + c < 7"
      using Suc by simp_all
    ultimately show ?thesis
      using w Suc by (simp add: nth_append)
  qed
qed

lemma non_empty_slots_append:
  "non_empty_slots (xs @ ys) = non_empty_slots xs @ non_empty_slots ys"
  by (induction xs rule: non_empty_slots.induct) simp_all

lemma non_empty_slots_padding: "non_empty_slots (replicate n None) = []"
  by (induction n) simp_all

lemma non_empty_slots_dates: "non_empty_slots (map Some ds) = ds"
  by (induction ds) simp_all

subsection \<open>The grid of a non-empty list of days\<close>

lemma WeekDay_range: "0 \<le> WeekDay t \<and> WeekDay t < 7"
  by (simp add: WeekDay_def)

lemma grid_of_days:
  assumes days: "getMonthDays year month = d0 # ds"
  defines "slots \<equiv> replicate (nat (getDay d0)) None @ map Some (d0 # ds)"
  shows "getCalendarGrid year month
           = Inr (rows_of_7 (slots @ replicate ((7 - length slots mod 7) mod 7) None))
         \<and> (\<forall>w \<in> set (rows_of_7 (slots @ replicate ((7 - length slots mod 7) mod 7) None)).
               length w = 7)"
proof -
  let ?week0 = "replicate (nat (getDay d0)) (None :: int option)"
  obtain week' grid' where run: "fill_weeks (d0 # ds) ?week0 [] = (week', grid')"
    by (cases "fill_weeks (d0 # ds) ?week0 []") blast
  have "nat (WeekDay d0) < 7"
    using WeekDay_range [of d0] by linarith
  then have "length ?week0 < 7"
    by (simp add: getDay_def)
  from fill_weeks_invariant [OF this _ run]
  have flat: "concat grid' @ week' = slots" and short: "length week' < 7"
    and rows: "\<forall>w \<in> set grid'. length w = 7"
    by (simp_all add: slots_def)
  have len: "length slots = 7 * length grid' + length week'"
    using flat [symmetric] length_concat_rows [OF rows] by simp
  then have md: "length slots mod 7 = length week'"
    using short by simp
  let ?g = "if length week' > 0 then grid' @ [pad_end week'] else grid'"
  have result: "getCalendarGrid year month = Inr ?g"
    unfolding getCalendarGrid_def days Let_def
    by (simp only: list.case pad_start_replicate append_Nil run prod.case)
  have "rows_of_7 (slots @ replicate ((7 - length slots mod 7) mod 7) None) = ?g
      \<and> (\<forall>w \<in> set ?g. length w = 7)"
  proof (cases "length week' > 0")
    case True
    with short have p: "(7 - length slots mod 7) mod 7 = 7 - length week'"
      unfolding md by simp
    have pe: "pad_end week' = week' @ replicate (7 - length week') None"
      using short by (intro pad_end_replicate) simp
    have "length week' + (7 - length week') = 7"
      using short by linarith
    then have "length (pad_end week') = 7"
      unfolding pe by simp
    with rows have all7: "\<forall>w \<in> set (grid' @ [pad_end week']). length w = 7"
      by simp
    then have "rows_of_7 (concat (grid' @ [pad_end week'])) = grid' @ [pad_end week']"
      by (rule rows_of_7_concat)
    moreover have "concat (grid' @ [pad_end week'])
        = (concat grid' @ week') @ replicate (7 - length week') None"
      by (simp add: pe)
    then have "concat (grid' @ [pad_end week'])
        = slots @ replicate ((7 - length slots mod 7) mod 7) None"
      by (simp only: flat p)
    ultimately show ?thesis
      using True all7 by simp
  next
    case False
    then have e: "week' = []" by simp
    then have "(7 - length slots mod 7) mod 7 = 0"
      unfolding md by simp
    then have "slots @ replicate ((7 - length slots mod 7) mod 7) None = concat grid'"
      using flat e by simp
    with rows_of_7_concat [OF rows] rows False show ?thesis
      by simp
  qed
  with result show ?thesis
    by simp
qed

subsection \<open>The grid of a month\<close>

lemma month_dates_Cons:
  "\<exists>ds. month_dates y m = MakeDate (MakeDay y m 1) 0 # ds"
proof -
  have "0 < nat (days_in_month y m)"
    using days_in_month_range [of y m] by simp
  then have "[0..<nat (days_in_month y m)] = 0 # [Suc 0..<nat (days_in_month y m)]"
    by (rule upt_conv_Cons)
  then show ?thesis
    by (simp add: month_dates_def)
qed

lemma length_month_dates: "length (month_dates y m) = nat (days_in_month y m)"
  by (simp add: month_dates_def)

lemma concat_rows_of_7: "concat (rows_of_7 xs) = xs"
proof (induction xs rule: rows_of_7.induct)
  case (1 xs)
  show ?case
  proof (cases "xs = []")
    case True
    then show ?thesis by (subst rows_of_7.simps) simp
  next
    case False
    with 1 have "concat (rows_of_7 (drop 7 xs)) = drop 7 xs"
      by simp
    with False show ?thesis
      by (subst rows_of_7.simps) simp
  qed
qed

lemma getCalendarGrid_in_range:
  assumes "year_in_range (MakeFullYear year + month div 12)"
  shows "getCalendarGrid year month
           = Inr (grid_reference (MakeFullYear year + month div 12) (month mod 12))"
    and "\<forall>w \<in> set (grid_reference (MakeFullYear year + month div 12) (month mod 12)).
           length w = 7"
proof -
  let ?Y = "MakeFullYear year + month div 12"
  let ?mn = "month mod 12"
  obtain ds where ds: "month_dates ?Y ?mn = MakeDate (MakeDay ?Y ?mn 1) 0 # ds"
    using month_dates_Cons by blast
  have "getMonthDays year month = month_dates ?Y ?mn"
    using assms by (intro getMonthDays_in_range) (simp_all add: year_in_range_def)
  then have days: "getMonthDays year month = MakeDate (MakeDay ?Y ?mn 1) 0 # ds"
    by (simp only: ds)
  have ref: "grid_reference ?Y ?mn
      = rows_of_7 ((replicate (nat (getDay (MakeDate (MakeDay ?Y ?mn 1) 0))) None
            @ map Some (MakeDate (MakeDay ?Y ?mn 1) 0 # ds))
          @ replicate ((7 - length (replicate (nat (getDay (MakeDate (MakeDay ?Y ?mn 1) 0))) None
            @ map Some (MakeDate (MakeDay ?Y ?mn 1) 0 # ds)) mod 7) mod 7) None)"
    unfolding grid_reference_def Let_def ds getDay_def ..
  note g = grid_of_days [OF days]
  show "getCalendarGrid year month = Inr (grid_reference ?Y ?mn)"
    unfolding ref using g by (rule conjunct1)
  show "\<forall>w \<in> set (grid_reference ?Y ?mn). length w = 7"
    unfolding ref using g by (rule conjunct2)
qed

lemma month_in_year:
  fixes m :: int
  assumes "0 \<le> m" "m \<le> 11"
  shows "m div 12 = 0" and "m mod 12 = m"
  using assms by simp_all

lemma MakeFullYear_in_range: "year_in_range y \<Longrightarrow> year_in_range (MakeFullYear y)"
  by (auto simp: year_in_range_def MakeFullYear_def)

lemma MakeFullYear_other: "y < 0 \<or> 99 < y \<Longrightarrow> MakeFullYear y = y"
  by (auto simp: MakeFullYear_def)

text \<open>
  The grid of a month of a year in range: the one of that month of the year as the
  \<open>Date\<close> constructor reads it.
\<close>

lemma getCalendarGrid_month:
  assumes "year_in_range y" "0 \<le> m" "m \<le> 11"
  shows "getCalendarGrid y m = Inr (grid_reference (MakeFullYear y) m)"
    and "\<forall>w \<in> set (grid_reference (MakeFullYear y) m). length w = 7"
proof -
  have e: "MakeFullYear y + m div 12 = MakeFullYear y" "m mod 12 = m"
    using assms by (simp_all add: month_in_year)
  have r: "year_in_range (MakeFullYear y + m div 12)"
    unfolding e using assms(1) by (rule MakeFullYear_in_range)
  show "getCalendarGrid y m = Inr (grid_reference (MakeFullYear y) m)"
    using getCalendarGrid_in_range(1) [OF r] unfolding e .
  show "\<forall>w \<in> set (grid_reference (MakeFullYear y) m). length w = 7"
    using getCalendarGrid_in_range(2) [OF r] unfolding e .
qed

text \<open>
  A year from 1 to 99 and the year 1900 later have the same leap years, so the months
  have the same lengths; the year 0 is a leap year and 1900 is not.
\<close>

lemma DaysInYear_two_digit:
  assumes "1 \<le> y" "y \<le> 99"
  shows "DaysInYear (1900 + y) = DaysInYear y"
proof -
  have "(y + 4 * 475) mod 4 = y mod 4"
    by (rule mod_mult_self2)
  then have four: "(1900 + y) mod 4 = y mod 4"
    by (simp add: add.commute)
  have "(y + 100 * 19) mod 100 = y mod 100"
    by (rule mod_mult_self2)
  then have "(1900 + y) mod 100 = y mod 100"
    by (simp add: add.commute)
  moreover have y: "y mod 100 = y"
    using assms by simp
  ultimately have hundred: "(1900 + y) mod 100 \<noteq> 0" "y mod 100 \<noteq> 0"
    using assms by simp_all
  show ?thesis
    unfolding DaysInYear_def four using hundred by simp
qed

lemma days_in_month_full_year:
  assumes "\<not> (y = 0 \<and> m = 1)"
  shows "days_in_month (MakeFullYear y) m = days_in_month y m"
proof (cases "1 \<le> y \<and> y \<le> 99")
  case True
  then have "MakeFullYear y = 1900 + y"
    by (simp add: MakeFullYear_def)
  with True show ?thesis
    by (simp add: days_in_month_def DaysInYear_two_digit)
next
  case False
  show ?thesis
  proof (cases "y = 0")
    case True
    with assms have "m \<noteq> 1"
      by simp
    then show ?thesis
      by (simp add: days_in_month_def)
  next
    case False
    with \<open>\<not> (1 \<le> y \<and> y \<le> 99)\<close> have "y < 0 \<or> 99 < y"
      by linarith
    then show ?thesis
      by (simp add: MakeFullYear_other)
  qed
qed

lemma concat_grid_reference:
  "concat (grid_reference y m)
     = replicate (nat (WeekDay (MakeDate (MakeDay y m 1) 0))) None
       @ map Some (month_dates y m)
       @ replicate (trailing_padding y m) None"
  by (simp add: grid_reference_def Let_def concat_rows_of_7 trailing_padding_def)

lemma non_empty_slots_grid_reference:
  "non_empty_slots (concat (grid_reference y m)) = month_dates y m"
  by (simp add: concat_grid_reference non_empty_slots_append non_empty_slots_padding
      non_empty_slots_dates)

subsection \<open>The fields of the dates of a month\<close>

lemma month_dates_nth:
  "i < nat (days_in_month y m) \<Longrightarrow> month_dates y m ! i = (MakeDay y m 1 + int i) * msPerDay"
  by (simp add: month_dates_def MakeDate_def MakeDay_def Let_def)

lemma month_date_fields:
  assumes m: "0 \<le> m" "m \<le> 11" and i: "i < nat (days_in_month y m)"
  shows "getFullYear (month_dates y m ! i) = y"
    and "getMonth (month_dates y m ! i) = m"
    and "DateFromTime (month_dates y m ! i) = int i + 1"
proof -
  let ?t = "month_dates y m ! i"
  have "Day ?t = MakeDay y m 1 + int i"
    using i by (simp add: month_dates_nth Day_midnight)
  then have day: "Day ?t = DayFromYear y
      + first_day_of_month m (if DaysInYear y = 366 then 1 else 0) + int i"
    using m by (simp add: MakeDay_def Let_def month_in_year)
  have dd: "0 \<le> int i" "int i < days_in_month y m"
    using i by simp_all
  note f = civil_fields [OF m dd day]
  show "getFullYear ?t = y" by (simp add: getFullYear_def f)
  show "getMonth ?t = m" by (simp add: getMonth_def f)
  show "DateFromTime ?t = int i + 1" by (rule f)
qed

lemma weekday_of_column:
  "WeekDay ((d1 + int j - int (nat (WeekDay (d1 * msPerDay)))) * msPerDay) = int (j mod 7)"
proof -
  define a where "a = d1 + 4"
  have w: "int (nat (WeekDay (d1 * msPerDay))) = a mod 7"
    by (simp add: WeekDay_def Day_midnight a_def)
  have day: "Day ((d1 + int j - a mod 7) * msPerDay) = d1 + int j - a mod 7"
    by (rule Day_midnight)
  have "a = 7 * (a div 7) + a mod 7"
    by simp
  then have "d1 + int j - a mod 7 + 4 = int j + 7 * (a div 7)"
    unfolding a_def by linarith
  then have "(d1 + int j - a mod 7 + 4) mod 7 = int j mod 7"
    by (simp only: mod_mult_self2)
  then show ?thesis
    unfolding w unfolding WeekDay_def day by (simp add: zmod_int)
qed

lemma slot_in_padded:
  assumes "(replicate w None @ map Some ds @ replicate p None) ! j = Some d"
    and "j < w + length ds + p"
  shows "w \<le> j \<and> j - w < length ds \<and> d = ds ! (j - w)"
proof -
  have "\<not> j < w"
    using assms(1) by (auto simp: nth_append)
  moreover have "j - w < length ds"
    using assms calculation by (auto simp: nth_append split: if_splits)
  ultimately show ?thesis
    using assms(1) by (auto simp: nth_append)
qed

lemma grid_reference_column:
  assumes rows: "\<forall>w \<in> set (grid_reference y m). length w = 7"
    and r: "r < length (grid_reference y m)" and c: "c < 7"
    and slot: "grid_reference y m ! r ! c = Some d"
  shows "getDay d = int c"
proof -
  let ?w = "nat (WeekDay (MakeDate (MakeDay y m 1) 0))"
  let ?j = "7 * r + c"
  have flat: "concat (grid_reference y m) ! ?j = Some d"
    using nth_concat_rows [OF rows r c] slot by simp
  have "length (concat (grid_reference y m)) = 7 * length (grid_reference y m)"
    using rows by (rule length_concat_rows)
  with r c have "?j < length (concat (grid_reference y m))"
    by simp
  then have "?j < ?w + length (month_dates y m) + trailing_padding y m"
    by (simp add: concat_grid_reference)
  with flat have j: "?w \<le> ?j" "?j - ?w < length (month_dates y m)"
    and d: "d = month_dates y m ! (?j - ?w)"
    using slot_in_padded [of ?w "month_dates y m" "trailing_padding y m" ?j d]
    by (simp_all add: concat_grid_reference)
  have "d = (MakeDay y m 1 + int (?j - ?w)) * msPerDay"
    unfolding d using j(2) by (simp add: month_dates_nth length_month_dates)
  also have "int (?j - ?w) = int ?j - int ?w"
    using j(1) by simp
  finally have "d = (MakeDay y m 1 + int ?j - int (nat (WeekDay (MakeDay y m 1 * msPerDay))))
      * msPerDay"
    by (simp add: MakeDate_def algebra_simps)
  then have "getDay d = int (?j mod 7)"
    unfolding getDay_def by (simp only: weekday_of_column)
  with c show ?thesis
    by simp
qed

section \<open>Lemmas on \<open>differenceInDays\<close> and \<open>calculatePriority\<close>\<close>

lemma differenceInCalendarDays_eq: "differenceInCalendarDays l r = Day l - Day r"
proof -
  have "startOfDay l - startOfDay r = (Day l - Day r) * msPerDay"
    by (simp add: startOfDay_def MakeDate_def algebra_simps)
  then show ?thesis
    unfolding differenceInCalendarDays_def using msPerDay_pos by simp
qed

lemma TimeWithinDay_range: "0 \<le> TimeWithinDay t \<and> TimeWithinDay t < msPerDay"
  using msPerDay_pos by (simp add: TimeWithinDay_def)

lemma Day_mono: "a \<le> b \<Longrightarrow> Day a \<le> Day b"
  unfolding Day_def using msPerDay_pos by (simp add: zdiv_mono1)

lemma Day_of_valid:
  assumes "valid_time t"
  shows "- 100000000 \<le> Day t" and "Day t \<le> 100000000"
proof -
  have "(- 100000000) * msPerDay \<le> t" "t \<le> 100000000 * msPerDay"
    using assms by (simp_all add: valid_time_def msPerDay_def)
  then have "Day ((- 100000000) * msPerDay) \<le> Day t" "Day t \<le> Day (100000000 * msPerDay)"
    by (simp_all only: Day_mono)
  then show "- 100000000 \<le> Day t" and "Day t \<le> 100000000"
    by (simp_all only: Day_midnight)
qed

lemma whole_days_later:
  assumes "r < l"
  shows "whole_days_between l r
           = Day l - Day r - (if TimeWithinDay l < TimeWithinDay r then 1 else 0)"
proof -
  define D where "D = Day l - Day r"
  define x where "x = TimeWithinDay l - TimeWithinDay r"
  have lr: "l - r = msPerDay * D + x"
    using day_decomposition [of l] day_decomposition [of r]
    by (simp add: D_def x_def algebra_simps)
  have x: "- msPerDay < x" "x < msPerDay"
    using TimeWithinDay_range [of l] TimeWithinDay_range [of r] by (simp_all add: x_def)
  have "(l - r) div msPerDay = D - (if x < 0 then 1 else 0)"
  proof (cases "x < 0")
    case True
    have "(l - r) div msPerDay = D - 1"
      by (rule int_div_pos_eq [where r = "x + msPerDay"])
        (use lr x True in \<open>simp_all add: algebra_simps\<close>)
    with True show ?thesis by simp
  next
    case False
    have "(l - r) div msPerDay = D"
      by (rule int_div_pos_eq [where r = x]) (use lr x False in simp_all)
    with False show ?thesis by simp
  qed
  with assms show ?thesis
    by (simp add: whole_days_between_def D_def x_def)
qed

lemma whole_days_earlier:
  assumes "l < r"
  shows "whole_days_between l r
           = - (Day r - Day l - (if TimeWithinDay r < TimeWithinDay l then 1 else 0))"
proof -
  have "whole_days_between l r = - whole_days_between r l"
    using assms by (simp add: whole_days_between_def)
  then show ?thesis
    by (simp only: whole_days_later [OF assms])
qed

lemma differenceInDays_whole_days:
  assumes "valid_time l" "valid_time r" "r \<noteq> 8640000000000000"
  shows "differenceInDays (TimeValue l) (TimeValue r) = Some (whole_days_between l r)"
proof -
  let ?D = "Day l - Day r"
  have mid: "setDate (TimeValue l) (DateFromTime l - k) = TimeClip (l - k * msPerDay)" for k
    using setDate_shift [of l "- k"] by simp
  have tod: "l - ?D * msPerDay - r = TimeWithinDay l - TimeWithinDay r"
    using day_decomposition [of l] day_decomposition [of r] by (simp add: algebra_simps)
  consider (later) "r < l" | (earlier) "l < r" | (same) "l = r"
    by linarith
  then show ?thesis
  proof cases
    case later
    then have D: "0 \<le> ?D"
      using Day_mono [of r l] by simp
    have sign: "compareLocalAsc l r = 1"
      using later by (simp add: compareLocalAsc_def)
    have "r - TimeWithinDay r \<le> l - ?D * msPerDay"
      using tod TimeWithinDay_range [of l] by linarith
    moreover have "- 8640000000000000 \<le> r - TimeWithinDay r"
    proof -
      have "- 100000000 \<le> Day r"
        using assms(2) by (rule Day_of_valid)
      then have "- 100000000 * msPerDay \<le> Day r * msPerDay"
        using msPerDay_pos by (simp only: mult_le_cancel_right_pos)
      then show ?thesis
        using day_decomposition [of r] by (simp add: msPerDay_def)
    qed
    moreover have "l - ?D * msPerDay \<le> l"
      using D msPerDay_pos by simp
    ultimately have ok: "TimeClip (l - ?D * msPerDay) = TimeValue (l - ?D * msPerDay)"
      using assms(1) by (simp add: TimeClip_def valid_time_def)
    have "compareLocalAsc (l - ?D * msPerDay) r = - 1 \<longleftrightarrow> TimeWithinDay l < TimeWithinDay r"
      unfolding compareLocalAsc_def Let_def tod by simp
    then show ?thesis
      using D by (simp add: sign differenceInCalendarDays_eq mid ok whole_days_later [OF later])
  next
    case earlier
    then have D: "?D \<le> 0"
      using Day_mono [of l r] by simp
    have sign: "compareLocalAsc l r = - 1"
      using earlier by (simp add: compareLocalAsc_def)
    have "l \<le> l - ?D * msPerDay"
      using D msPerDay_pos by (simp add: mult_le_0_iff)
    moreover have "l - ?D * msPerDay \<le> 8640000000000000"
    proof -
      have "Day r \<le> 100000000"
        using assms(2) by (rule Day_of_valid)
      moreover have "Day r \<noteq> 100000000"
      proof
        assume "Day r = 100000000"
        then have "r = 8640000000000000"
          using day_decomposition [of r] TimeWithinDay_range [of r] assms(2)
          by (simp add: valid_time_def msPerDay_def)
        with assms(3) show False
          by simp
      qed
      ultimately have "Day r + 1 \<le> 100000000"
        by simp
      then have "(Day r + 1) * msPerDay \<le> 100000000 * msPerDay"
        using msPerDay_pos by (simp only: mult_le_cancel_right_pos)
      with tod TimeWithinDay_range [of l] day_decomposition [of r] show ?thesis
        by (simp add: msPerDay_def algebra_simps)
    qed
    ultimately have ok: "TimeClip (l - ?D * msPerDay) = TimeValue (l - ?D * msPerDay)"
      using assms(1) by (simp add: TimeClip_def valid_time_def)
    define n where "n = Day r - Day l"
    have n: "0 \<le> n" "l - ?D * msPerDay = l + n * msPerDay"
      using D by (simp_all add: n_def algebra_simps)
    have "setDate (TimeValue l) (DateFromTime l + n) = TimeValue (l + n * msPerDay)"
      using ok unfolding n(2) by (simp only: setDate_shift)
    then have moved: "setDate (TimeValue l) (DateFromTime l - - 1 * n) = TimeValue (l + n * msPerDay)"
      by simp
    have "l + n * msPerDay - r = TimeWithinDay l - TimeWithinDay r"
      using tod unfolding n(2) .
    then have cmp: "compareLocalAsc (l + n * msPerDay) r = 1 \<longleftrightarrow> TimeWithinDay r < TimeWithinDay l"
      unfolding compareLocalAsc_def Let_def by simp
    have "differenceInDays (TimeValue l) (TimeValue r)
        = Some (- 1 * (n - (case setDate (TimeValue l) (DateFromTime l - - 1 * n) of
              InvalidDate \<Rightarrow> 0
            | TimeValue l' \<Rightarrow> if compareLocalAsc l' r = - (- 1) then 1 else 0)))"
      using n(1) by (simp add: sign differenceInCalendarDays_eq n_def Let_def)
    also have "\<dots> = Some (- (n - (if TimeWithinDay r < TimeWithinDay l then 1 else 0)))"
      unfolding moved using cmp by simp
    finally show ?thesis
      by (simp only: whole_days_earlier [OF earlier] n_def)
  next
    case same
    then show ?thesis
      by (simp add: compareLocalAsc_def whole_days_between_def)
  qed
qed

lemma today_midnight:
  assumes "valid_time now"
  shows "setHours_0 (TimeValue now) = TimeValue (startOfDay now)"
    and "valid_time (startOfDay now)" and "startOfDay now \<le> now"
proof -
  from Day_of_valid [OF assms]
  have "(- 100000000) * msPerDay \<le> Day now * msPerDay" "Day now * msPerDay \<le> 100000000 * msPerDay"
    using msPerDay_pos by (simp_all only: mult_le_cancel_right_pos)
  then show v: "valid_time (startOfDay now)"
    by (simp add: valid_time_def startOfDay_def MakeDate_def msPerDay_def)
  then show "setHours_0 (TimeValue now) = TimeValue (startOfDay now)"
    by (simp add: startOfDay_def TimeClip_def valid_time_def)
  show "startOfDay now \<le> now"
    using day_decomposition [of now] TimeWithinDay_range [of now]
    by (simp add: startOfDay_def MakeDate_def)
qed

lemma calculatePriority_of_days:
  assumes "s \<noteq> []" "parseISO s = TimeValue due" "valid_time due" "valid_time now"
    "now < 8640000000000000"
  shows "calculatePriority parseISO now (Some s)
           = (let daysUntil = whole_days_between due (startOfDay now)
              in if daysUntil \<le> 3 then high else if daysUntil \<le> 7 then medium else low)"
proof -
  note t = today_midnight [OF assms(4)]
  have "startOfDay now \<noteq> 8640000000000000"
    using t(3) assms(5) by simp
  with assms(3) t(2)
  have "differenceInDays (TimeValue due) (TimeValue (startOfDay now))
      = Some (whole_days_between due (startOfDay now))"
    by (rule differenceInDays_whole_days)
  then have dd: "differenceInDays (parseISO s) (setHours_0 (TimeValue now))
      = Some (whole_days_between due (startOfDay now))"
    by (simp only: assms(2) t(1))
  have "calculatePriority parseISO now (Some s)
      = (if number_le (Some (whole_days_between due (startOfDay now))) 3 then high
         else if number_le (Some (whole_days_between due (startOfDay now))) 7 then medium
         else low)"
    using assms(1) by (simp only: calculatePriority_def option.case Let_def dd if_False)
  then show ?thesis
    by (simp add: Let_def)
qed

lemma whole_days_midnight:
  assumes "TimeWithinDay due = 0"
  shows "whole_days_between due (startOfDay now) = Day due - Day now"
proof -
  have twd: "TimeWithinDay (startOfDay now) = 0" and day: "Day (startOfDay now) = Day now"
    by (simp_all add: startOfDay_def MakeDate_def TimeWithinDay_midnight Day_midnight)
  consider "startOfDay now < due" | "due < startOfDay now" | "due = startOfDay now"
    by linarith
  then show ?thesis
  proof cases
    case 1
    then show ?thesis
      by (simp add: whole_days_later twd day assms)
  next
    case 2
    then show ?thesis
      by (simp add: whole_days_earlier twd day assms)
  next
    case 3
    then show ?thesis
      by (simp add: whole_days_between_def day)
  qed
qed

section \<open>Claims on \<open>calculateHours\<close>\<close>

text \<open>
  C1. For every start and finish of the shape \<open>HH:MM\<close> and every \<open>lunchMinutes\<close>,
  \<open>calculateHours\<close> equals the reference computation of the specification (minutes since
  midnight, 1440 added to a finish before the start, the lunch subtracted, the difference
  floored at 0, rounded to the nearest quarter of an hour, divided by 60). The three
  examples of the specification evaluate to 9, 8 and 0.25, and the result is never
  negative, on any input.
\<close>

theorem calculateHours_matches_reference:
  "(test_hhmm start \<and> test_hhmm finish \<longrightarrow>
      calculateHours start finish lunchMinutes
        = computeHours_reference start finish lunchMinutes)
   \<and> 0 \<le> calculateHours start finish lunchMinutes
   \<and> calculateHours ''07:00'' ''16:30'' 30 = 9
   \<and> calculateHours ''22:00'' ''06:00'' 0 = 8
   \<and> calculateHours ''09:00'' ''09:10'' 0 = 1 / 4"
proof (intro conjI impI)
  assume "test_hhmm start \<and> test_hhmm finish"
  then show "calculateHours start finish lunchMinutes
      = computeHours_reference start finish lunchMinutes"
    by (simp add: calculateHours_shaped quarter_hours computeHours_reference_def
        Math_max_def max_def)
next
  show "0 \<le> calculateHours start finish lunchMinutes"
    by (rule calculateHours_nonneg)
next
  show "calculateHours ''07:00'' ''16:30'' 30 = 9"
    by code_simp
next
  show "calculateHours ''22:00'' ''06:00'' 0 = 8"
    by code_simp
next
  show "calculateHours ''09:00'' ''09:10'' 0 = 1 / 4"
    by code_simp
qed

theorem calculateHours_matches_reference_witness:
  "test_hhmm ''22:00'' \<and> test_hhmm ''06:00''
   \<and> calculateHours ''22:00'' ''06:00'' 0 = computeHours_reference ''22:00'' ''06:00'' 0
   \<and> computeHours_reference ''22:00'' ''06:00'' 0 = 8"
proof -
  have shape: "test_hhmm ''22:00'' \<and> test_hhmm ''06:00''"
    by (simp add: is_digit_def)
  have "computeHours_reference ''22:00'' ''06:00'' 0 = 8"
    by code_simp
  with shape calculateHours_matches_reference [of "''22:00''" "''06:00''" 0]
  show ?thesis
    by blast
qed

text \<open>
  C6, as stated: a start or finish outside the strict 24-hour pattern gives 0. The
  test of the code is on the shape of the string alone, so \<open>25:00\<close>, which is no time
  of a 24-hour clock, is computed with: the claim fails there.
\<close>

theorem calculateHours_strict_24h_counterexample:
  "\<not> strict_24h ''25:00'' \<and> calculateHours ''25:00'' ''26:00'' 0 \<noteq> 0"
proof
  show "\<not> strict_24h ''25:00''"
    by (simp add: strict_24h_def digit_value_def)
  have "calculateHours ''25:00'' ''26:00'' 0 = 1"
    by code_simp
  then show "calculateHours ''25:00'' ''26:00'' 0 \<noteq> 0"
    by simp
qed

text \<open>
  C6, amended: for every \<open>lunchMinutes\<close>, when the start or the finish fails the test of
  the two-digit, colon, two-digit shape (empty or malformed in any other way),
  \<open>calculateHours\<close> is 0; the model has no failing branch, as the source has no
  \<open>throw\<close>. In particular an empty start or an empty finish gives 0.
\<close>

theorem calculateHours_malformed_zero:
  "(\<not> test_hhmm start \<or> \<not> test_hhmm finish \<longrightarrow>
      calculateHours start finish lunchMinutes = 0)
   \<and> calculateHours [] ''16:00'' 0 = 0
   \<and> calculateHours ''09:00'' [] 0 = 0"
  by (simp add: calculateHours_def)

theorem calculateHours_malformed_zero_witness:
  "\<not> test_hhmm ''9:00'' \<and> calculateHours ''9:00'' ''16:00'' 30 = 0"
proof -
  have "\<not> test_hhmm ''9:00''"
    by simp
  with calculateHours_malformed_zero [of "''9:00''" "''16:00''" 30] show ?thesis
    by blast
qed

text \<open>
  C7, as stated: a non-positive \<open>lunchMinutes\<close> gives the result of 0. The code
  subtracts \<open>lunchMinutes\<close> whatever its sign, so a lunch of \<open>-30\<close> adds half an hour.
\<close>

theorem calculateHours_negative_lunch_counterexample:
  "test_hhmm ''09:00'' \<and> test_hhmm ''10:00''
   \<and> calculateHours ''09:00'' ''10:00'' (- 30) \<noteq> calculateHours ''09:00'' ''10:00'' 0"
proof -
  have "calculateHours ''09:00'' ''10:00'' (- 30) = 3 / 2"
    by code_simp
  moreover have "calculateHours ''09:00'' ''10:00'' 0 = 1"
    by code_simp
  ultimately show ?thesis
    by (simp add: is_digit_def)
qed

text \<open>
  C7, amended: \<open>lunchMinutes\<close> is subtracted whatever its sign. For every well-shaped
  start and finish, a lunch of 0 leaves the minutes of the shift as they are (no
  deduction), and a negative lunch adds its absolute value to them before the floor
  at 0 and the rounding, so that the result is at least the one for 0.
\<close>

theorem calculateHours_lunch_subtracted_as_given:
  "test_hhmm start \<and> test_hhmm finish \<longrightarrow>
     calculateHours start finish 0
       = of_int (nearest_quarter (max 0 (shift_minutes start finish))) / 60
     \<and> (lunchMinutes < 0 \<longrightarrow>
          calculateHours start finish lunchMinutes
            = of_int (nearest_quarter (max 0 (shift_minutes start finish + \<bar>lunchMinutes\<bar>))) / 60
          \<and> calculateHours start finish 0 \<le> calculateHours start finish lunchMinutes)"
proof (intro impI conjI)
  assume shaped: "test_hhmm start \<and> test_hhmm finish"
  then show zero: "calculateHours start finish 0
      = of_int (nearest_quarter (max 0 (shift_minutes start finish))) / 60"
    by (simp add: calculateHours_shaped quarter_hours Math_max_def max_def)
  assume neg: "lunchMinutes < 0"
  with shaped show given: "calculateHours start finish lunchMinutes
      = of_int (nearest_quarter (max 0 (shift_minutes start finish + \<bar>lunchMinutes\<bar>))) / 60"
    by (simp add: calculateHours_shaped quarter_hours Math_max_def max_def)
  have "(2 * max 0 (shift_minutes start finish) + 15) div 30
      \<le> (2 * max 0 (shift_minutes start finish + \<bar>lunchMinutes\<bar>) + 15) div 30"
    by (rule zdiv_mono1) (use neg in \<open>simp_all add: max_def\<close>)
  then show "calculateHours start finish 0 \<le> calculateHours start finish lunchMinutes"
    unfolding zero given nearest_quarter_eq by (simp add: divide_right_mono)
qed

theorem calculateHours_lunch_subtracted_as_given_witness:
  "test_hhmm ''09:00'' \<and> test_hhmm ''10:00'' \<and> (- 30 :: int) < 0
   \<and> calculateHours ''09:00'' ''10:00'' 0 = 1
   \<and> calculateHours ''09:00'' ''10:00'' (- 30) = 3 / 2
   \<and> calculateHours ''09:00'' ''10:00'' 0 \<le> calculateHours ''09:00'' ''10:00'' (- 30)"
proof -
  have shape: "test_hhmm ''09:00'' \<and> test_hhmm ''10:00''"
    by (simp add: is_digit_def)
  have q0: "nearest_quarter (max 0 (shift_minutes ''09:00'' ''10:00'')) = 60"
    by code_simp
  have q1: "nearest_quarter (max 0 (shift_minutes ''09:00'' ''10:00'' + \<bar>- 30\<bar>)) = 90"
    by code_simp
  have neg: "(- 30 :: int) < 0"
    by simp
  note calculateHours_lunch_subtracted_as_given [of "''09:00''" "''10:00''" "- 30",
      unfolded q0 q1]
  with shape neg show ?thesis
    by simp
qed

text \<open>
  C10. Only the shape of the two strings is tested, never the range of the hour or of
  the minute: for any eight decimal digits the two strings are turned into minutes
  and the usual arithmetic applies. So \<open>25:00\<close> to \<open>26:00\<close> is one hour, not 0, and a
  minute field of 75 counts as 75 minutes.
\<close>

theorem calculateHours_shape_only:
  "(is_digit a \<and> is_digit b \<and> is_digit c \<and> is_digit d
    \<and> is_digit e \<and> is_digit f \<and> is_digit g \<and> is_digit h \<longrightarrow>
      calculateHours [a, b, CHR '':'', c, d] [e, f, CHR '':'', g, h] lunchMinutes =
        (let startMins = (10 * digit_value a + digit_value b) * 60
                           + (10 * digit_value c + digit_value d);
             finishMins = (10 * digit_value e + digit_value f) * 60
                           + (10 * digit_value g + digit_value h);
             finishMins = (if finishMins < startMins then finishMins + 1440 else finishMins)
         in of_int (Math_round (of_int (Math_max 0 (finishMins - startMins - lunchMinutes)) / 15))
              * 15 / 60))
   \<and> calculateHours ''25:00'' ''26:00'' 0 = 1
   \<and> calculateHours ''00:00'' ''00:75'' 0 = 5 / 4"
proof (intro conjI impI)
  assume "is_digit a \<and> is_digit b \<and> is_digit c \<and> is_digit d
    \<and> is_digit e \<and> is_digit f \<and> is_digit g \<and> is_digit h"
  then have "test_hhmm [a, b, CHR '':'', c, d]" "test_hhmm [e, f, CHR '':'', g, h]"
    by simp_all
  then show "calculateHours [a, b, CHR '':'', c, d] [e, f, CHR '':'', g, h] lunchMinutes =
        (let startMins = (10 * digit_value a + digit_value b) * 60
                           + (10 * digit_value c + digit_value d);
             finishMins = (10 * digit_value e + digit_value f) * 60
                           + (10 * digit_value g + digit_value h);
             finishMins = (if finishMins < startMins then finishMins + 1440 else finishMins)
         in of_int (Math_round (of_int (Math_max 0 (finishMins - startMins - lunchMinutes)) / 15))
              * 15 / 60)"
    by (simp add: calculateHours_shaped shift_minutes_def clock_minutes_def Let_def)
next
  show "calculateHours ''25:00'' ''26:00'' 0 = 1"
    by code_simp
next
  show "calculateHours ''00:00'' ''00:75'' 0 = 5 / 4"
    by code_simp
qed

theorem calculateHours_shape_only_witness:
  "is_digit CHR ''2'' \<and> is_digit CHR ''5'' \<and> is_digit CHR ''0'' \<and> is_digit CHR ''6''
   \<and> calculateHours ''25:00'' ''26:00'' 0 = 1"
  using calculateHours_shape_only [of "CHR ''2''" "CHR ''5''" "CHR ''0''" "CHR ''0''"
      "CHR ''2''" "CHR ''6''" "CHR ''0''" "CHR ''0''" 0]
  by (simp add: is_digit_def)

section \<open>Claims on \<open>getCalendarGrid\<close>\<close>

lemma year_in_range_2024: "year_in_range 2024"
  by (simp add: year_in_range_def)

lemma year_in_range_50: "year_in_range 50"
  by (simp add: year_in_range_def)

lemma getCalendarGrid_February_2024:
  "getCalendarGrid 2024 1 = Inr
    [[None, None, None, None, Some 1706745600000, Some 1706832000000, Some 1706918400000],
     [Some 1707004800000, Some 1707091200000, Some 1707177600000, Some 1707264000000,
      Some 1707350400000, Some 1707436800000, Some 1707523200000],
     [Some 1707609600000, Some 1707696000000, Some 1707782400000, Some 1707868800000,
      Some 1707955200000, Some 1708041600000, Some 1708128000000],
     [Some 1708214400000, Some 1708300800000, Some 1708387200000, Some 1708473600000,
      Some 1708560000000, Some 1708646400000, Some 1708732800000],
     [Some 1708819200000, Some 1708905600000, Some 1708992000000, Some 1709078400000,
      Some 1709164800000, None, None]]"
  by code_simp

lemma first_of_February_2024: "MakeDate (MakeDay 2024 1 1) 0 = 1706745600000"
  by code_simp

lemma getCalendarGrid_January_50: "getCalendarGrid 50 0 = Inr (grid_reference 1950 0)"
  by code_simp

text \<open>
  C3, as stated: for every valid year the grid starts with as many empty slots as the
  weekday index of the first day of the month. The year 50 is a year that \<open>Date\<close> holds,
  and its first of January is a Saturday (index 6); but \<open>new Date(50, 0, 1)\<close> is the
  first of January 1950, a Sunday, and the grid returned is the one of January 1950:
  its first slot is that date, with no empty slot before it.
\<close>

theorem getCalendarGrid_layout_year_50_counterexample:
  "year_in_range 50
   \<and> WeekDay (MakeDate (MakeDay 50 0 1) 0) = 6
   \<and> getCalendarGrid 50 0 = Inr (grid_reference 1950 0)
   \<and> concat (grid_reference 1950 0) ! 0 = Some (MakeDate (MakeDay 1950 0 1) 0)
   \<and> getCalendarGrid 50 0 \<noteq> Inr (grid_reference 50 0)"
proof -
  have w: "WeekDay (MakeDate (MakeDay 50 0 1) 0) = 6"
    by code_simp
  have first: "concat (grid_reference 1950 0) ! 0 = Some (MakeDate (MakeDay 1950 0 1) 0)"
    by code_simp
  have other: "concat (grid_reference 50 0) ! 0 = None"
    by code_simp
  have "grid_reference 1950 0 \<noteq> grid_reference 50 0"
  proof
    assume "grid_reference 1950 0 = grid_reference 50 0"
    with first other show False
      by simp
  qed
  with w first year_in_range_50 show ?thesis
    by (simp add: getCalendarGrid_January_50)
qed

text \<open>
  C3, amended: for every year in the range of \<open>Date\<close> and every month from 0 to 11, with
  \<open>Y\<close> the year as the \<open>Date\<close> constructor reads it (1900 plus the year for a year from 0
  to 99, the year itself otherwise), the grid is the one the specification describes
  for month \<open>m\<close> of year \<open>Y\<close>: flattened, it is as many empty slots as the weekday index
  (0 for Sunday) of the first day of that month, then the dates of that month in
  ascending order, then fewer than seven empty slots; and every row has exactly seven
  slots, so the rows are the consecutive sevens of that list. For a year outside 0 to
  99 this is the grid of the year given. The grid of February 2024 has 5 rows, and its
  first row is four empty slots followed by the first of February: the first non-empty
  slot is in column 4.
\<close>

theorem getCalendarGrid_layout:
  "(year_in_range y \<and> 0 \<le> m \<and> m \<le> 11 \<longrightarrow>
      getCalendarGrid y m = Inr (grid_reference (MakeFullYear y) m)
      \<and> concat (grid_reference (MakeFullYear y) m)
          = replicate (nat (WeekDay (MakeDate (MakeDay (MakeFullYear y) m 1) 0))) None
            @ map Some (month_dates (MakeFullYear y) m)
            @ replicate (trailing_padding (MakeFullYear y) m) None
      \<and> trailing_padding (MakeFullYear y) m < 7
      \<and> (\<forall>row \<in> set (grid_reference (MakeFullYear y) m). length row = 7)
      \<and> (y < 0 \<or> 99 < y \<longrightarrow> getCalendarGrid y m = Inr (grid_reference y m)))
   \<and> (\<exists>grid. getCalendarGrid 2024 1 = Inr grid \<and> length grid = 5
        \<and> take 5 (grid ! 0) = [None, None, None, None, Some (MakeDate (MakeDay 2024 1 1) 0)])"
proof (intro conjI impI)
  assume v: "year_in_range y \<and> 0 \<le> m \<and> m \<le> 11"
  then show g: "getCalendarGrid y m = Inr (grid_reference (MakeFullYear y) m)"
    by (intro getCalendarGrid_month) simp_all
  from v show "\<forall>row \<in> set (grid_reference (MakeFullYear y) m). length row = 7"
    by (intro getCalendarGrid_month) simp_all
  show "concat (grid_reference (MakeFullYear y) m)
      = replicate (nat (WeekDay (MakeDate (MakeDay (MakeFullYear y) m 1) 0))) None
        @ map Some (month_dates (MakeFullYear y) m)
        @ replicate (trailing_padding (MakeFullYear y) m) None"
    by (rule concat_grid_reference)
  show "trailing_padding (MakeFullYear y) m < 7"
    by (simp add: trailing_padding_def)
  assume "y < 0 \<or> 99 < y"
  then have "MakeFullYear y = y"
    by (rule MakeFullYear_other)
  with g show "getCalendarGrid y m = Inr (grid_reference y m)"
    by simp
next
  show "\<exists>grid. getCalendarGrid 2024 1 = Inr grid \<and> length grid = 5
      \<and> take 5 (grid ! 0) = [None, None, None, None, Some (MakeDate (MakeDay 2024 1 1) 0)]"
    unfolding getCalendarGrid_February_2024 first_of_February_2024 by simp
qed

theorem getCalendarGrid_layout_witness:
  "year_in_range 2024 \<and> getCalendarGrid 2024 1 = Inr (grid_reference 2024 1)
   \<and> nat (WeekDay (MakeDate (MakeDay 2024 1 1) 0)) = 4
   \<and> length (month_dates 2024 1) = 29
   \<and> trailing_padding 2024 1 = 2
   \<and> year_in_range 50 \<and> getCalendarGrid 50 0 = Inr (grid_reference 1950 0)
   \<and> nat (WeekDay (MakeDate (MakeDay 1950 0 1) 0)) = 0"
proof -
  have "nat (WeekDay (MakeDate (MakeDay 2024 1 1) 0)) = 4"
    by code_simp
  moreover have "length (month_dates 2024 1) = 29"
    by code_simp
  moreover have "trailing_padding 2024 1 = 2"
    by code_simp
  moreover have "nat (WeekDay (MakeDate (MakeDay 1950 0 1) 0)) = 0"
    by code_simp
  moreover have "MakeFullYear 2024 = 2024" "MakeFullYear 50 = 1950"
    by (simp_all add: MakeFullYear_def)
  ultimately show ?thesis
    using getCalendarGrid_layout [of 2024 1] getCalendarGrid_layout [of 50 0]
      year_in_range_2024 year_in_range_50
    by simp
qed

text \<open>
  C4, as stated: the number of non-empty slots is the number of days of the month.
  February of the year 0, a leap year that \<open>Date\<close> holds, has 29 days; the grid returned
  is the one of February 1900, with 28 dates.
\<close>

theorem getCalendarGrid_count_year_0_counterexample:
  "year_in_range 0
   \<and> days_in_month 0 1 = 29
   \<and> getCalendarGrid 0 1 = Inr (grid_reference 1900 1)
   \<and> length (non_empty_slots (concat (grid_reference 1900 1))) = 28"
proof -
  have "days_in_month 0 1 = 29"
    by code_simp
  moreover have "getCalendarGrid 0 1 = Inr (grid_reference 1900 1)"
    by code_simp
  moreover have "length (non_empty_slots (concat (grid_reference 1900 1))) = 28"
    by code_simp
  ultimately show ?thesis
    by (simp add: year_in_range_def)
qed

text \<open>
  C4, amended: for every year in the range of \<open>Date\<close> and every month from 0 to 11 the
  grid is returned, its rows have seven columns, every non-empty slot holds a date
  whose weekday index is the column of the slot in its row, and the number of
  non-empty slots is the number of days of that month in the year as the \<open>Date\<close>
  constructor reads it, which is between 28 and 31. That is the number of days of the
  month in the year given, except for February of the year 0.
\<close>

theorem getCalendarGrid_columns_and_count:
  "year_in_range y \<and> 0 \<le> m \<and> m \<le> 11 \<longrightarrow>
     (\<exists>grid. getCalendarGrid y m = Inr grid
        \<and> (\<forall>row \<in> set grid. length row = 7)
        \<and> (\<forall>r c d. r < length grid \<and> c < 7 \<and> grid ! r ! c = Some d \<longrightarrow> getDay d = int c)
        \<and> int (length (non_empty_slots (concat grid))) = days_in_month (MakeFullYear y) m
        \<and> 28 \<le> days_in_month (MakeFullYear y) m \<and> days_in_month (MakeFullYear y) m \<le> 31
        \<and> (\<not> (y = 0 \<and> m = 1) \<longrightarrow>
              int (length (non_empty_slots (concat grid))) = days_in_month y m))"
proof
  let ?Y = "MakeFullYear y"
  assume v: "year_in_range y \<and> 0 \<le> m \<and> m \<le> 11"
  then have grid: "getCalendarGrid y m = Inr (grid_reference ?Y m)"
    by (intro getCalendarGrid_month) simp_all
  from v have rows: "\<forall>row \<in> set (grid_reference ?Y m). length row = 7"
    by (intro getCalendarGrid_month) simp_all
  have cols: "\<forall>r c d. r < length (grid_reference ?Y m) \<and> c < 7
      \<and> grid_reference ?Y m ! r ! c = Some d \<longrightarrow> getDay d = int c"
    using grid_reference_column [OF rows] by blast
  have count: "int (length (non_empty_slots (concat (grid_reference ?Y m)))) = days_in_month ?Y m"
    using days_in_month_range [of ?Y m]
    by (simp add: non_empty_slots_grid_reference length_month_dates)
  have same: "\<not> (y = 0 \<and> m = 1) \<longrightarrow>
      int (length (non_empty_slots (concat (grid_reference ?Y m)))) = days_in_month y m"
    unfolding count by (simp add: days_in_month_full_year)
  from grid rows cols count same days_in_month_range [of ?Y m]
  show "\<exists>grid. getCalendarGrid y m = Inr grid
        \<and> (\<forall>row \<in> set grid. length row = 7)
        \<and> (\<forall>r c d. r < length grid \<and> c < 7 \<and> grid ! r ! c = Some d \<longrightarrow> getDay d = int c)
        \<and> int (length (non_empty_slots (concat grid))) = days_in_month ?Y m
        \<and> 28 \<le> days_in_month ?Y m \<and> days_in_month ?Y m \<le> 31
        \<and> (\<not> (y = 0 \<and> m = 1) \<longrightarrow>
              int (length (non_empty_slots (concat grid))) = days_in_month y m)"
    by blast
qed

theorem getCalendarGrid_columns_and_count_witness:
  "year_in_range 2024
   \<and> (\<exists>grid. getCalendarGrid 2024 1 = Inr grid
        \<and> grid ! 1 ! 3 = Some 1707264000000 \<and> getDay 1707264000000 = 3
        \<and> length (non_empty_slots (concat grid)) = 29)"
proof -
  have ne: "\<not> ((2024 :: int) = 0 \<and> (1 :: int) = 1)"
    by simp
  from getCalendarGrid_columns_and_count [of 2024 1] year_in_range_2024 ne
  obtain grid where g: "getCalendarGrid 2024 1 = Inr grid"
    and cols: "\<forall>r c d. r < length grid \<and> c < 7 \<and> grid ! r ! c = Some d \<longrightarrow> getDay d = int c"
    and count: "int (length (non_empty_slots (concat grid))) = days_in_month 2024 1"
    by auto
  have "days_in_month 2024 1 = 29"
    by code_simp
  with count have n: "length (non_empty_slots (concat grid)) = 29"
    by simp
  have "MakeFullYear 2024 = 2024"
    by (simp add: MakeFullYear_def)
  then have "getCalendarGrid 2024 1 = Inr (grid_reference 2024 1)"
    using getCalendarGrid_month(1) [OF year_in_range_2024, of 1] by simp
  with g have grid: "grid = grid_reference 2024 1"
    by simp
  have "length (grid_reference 2024 1) = 5"
    by code_simp
  then have row: "1 < length grid"
    unfolding grid by simp
  have slot: "grid ! 1 ! 3 = Some 1707264000000"
    unfolding grid by code_simp
  have "(3 :: nat) < 7"
    by simp
  with cols row slot have "getDay 1707264000000 = int 3"
    by blast
  with g slot n year_in_range_2024 show ?thesis
    by simp
qed

text \<open>
  C5, as stated: the year and the month read back from every slot are the ones given.
  For the year 50, which \<open>Date\<close> holds, the grid of January is returned and every one of
  its 31 slots reads back the year 1950.
\<close>

theorem getCalendarGrid_round_trip_year_50_counterexample:
  "year_in_range 50
   \<and> getCalendarGrid 50 0 = Inr (grid_reference 1950 0)
   \<and> map (\<lambda>d. (getFullYear d, getMonth d)) (non_empty_slots (concat (grid_reference 1950 0)))
       = replicate 31 (1950, 0)
   \<and> (1950 :: int, 0 :: int) \<noteq> (50, 0)"
proof -
  have "map (\<lambda>d. (getFullYear d, getMonth d)) (non_empty_slots (concat (grid_reference 1950 0)))
      = replicate 31 (1950, 0)"
    by code_simp
  with year_in_range_50 show ?thesis
    by (simp add: getCalendarGrid_January_50)
qed

text \<open>
  C5, amended: for every year \<open>y\<close> in the range of \<open>Date\<close> and every month \<open>m\<close> from 0 to 11,
  the grid is returned, and reading the year and the month back from the date of each
  non-empty slot, in order, gives \<open>(Y, m)\<close> every time, once for each day of the month,
  where \<open>Y\<close> is the year as the \<open>Date\<close> constructor reads it: \<open>y\<close> itself for a year outside
  0 to 99, so that \<open>(y, m)\<close> is recovered, and 1900 plus \<open>y\<close> for a year from 0 to 99.
\<close>

theorem getCalendarGrid_round_trip:
  "year_in_range y \<and> 0 \<le> m \<and> m \<le> 11 \<longrightarrow>
     (\<exists>grid. getCalendarGrid y m = Inr grid
        \<and> map (\<lambda>d. (getFullYear d, getMonth d)) (non_empty_slots (concat grid))
            = replicate (nat (days_in_month (MakeFullYear y) m)) (MakeFullYear y, m)
        \<and> MakeFullYear y = (if 0 \<le> y \<and> y \<le> 99 then 1900 + y else y))"
proof
  let ?Y = "MakeFullYear y"
  assume v: "year_in_range y \<and> 0 \<le> m \<and> m \<le> 11"
  then have grid: "getCalendarGrid y m = Inr (grid_reference ?Y m)"
    by (intro getCalendarGrid_month) simp_all
  have "map (\<lambda>d. (getFullYear d, getMonth d)) (month_dates ?Y m)
      = replicate (nat (days_in_month ?Y m)) (?Y, m)"
  proof (rule nth_equalityI)
    show "length (map (\<lambda>d. (getFullYear d, getMonth d)) (month_dates ?Y m))
        = length (replicate (nat (days_in_month ?Y m)) (?Y, m))"
      by (simp add: length_month_dates)
  next
    fix i
    assume "i < length (map (\<lambda>d. (getFullYear d, getMonth d)) (month_dates ?Y m))"
    then have i: "i < nat (days_in_month ?Y m)"
      by (simp add: length_month_dates)
    with v have "getFullYear (month_dates ?Y m ! i) = ?Y" "getMonth (month_dates ?Y m ! i) = m"
      by (simp_all add: month_date_fields)
    with i show "map (\<lambda>d. (getFullYear d, getMonth d)) (month_dates ?Y m) ! i
        = replicate (nat (days_in_month ?Y m)) (?Y, m) ! i"
      by (simp add: length_month_dates)
  qed
  moreover have "?Y = (if 0 \<le> y \<and> y \<le> 99 then 1900 + y else y)"
    by (simp add: MakeFullYear_def)
  ultimately show "\<exists>grid. getCalendarGrid y m = Inr grid
        \<and> map (\<lambda>d. (getFullYear d, getMonth d)) (non_empty_slots (concat grid))
            = replicate (nat (days_in_month ?Y m)) (?Y, m)
        \<and> ?Y = (if 0 \<le> y \<and> y \<le> 99 then 1900 + y else y)"
    using grid by (simp add: non_empty_slots_grid_reference)
qed

theorem getCalendarGrid_round_trip_witness:
  "year_in_range 2024
   \<and> (\<exists>grid. getCalendarGrid 2024 1 = Inr grid
        \<and> map (\<lambda>d. (getFullYear d, getMonth d)) (non_empty_slots (concat grid))
            = replicate 29 (2024, 1))"
proof -
  have "nat (days_in_month 2024 1) = 29"
    by code_simp
  moreover have "MakeFullYear 2024 = 2024"
    by (simp add: MakeFullYear_def)
  ultimately show ?thesis
    using getCalendarGrid_round_trip [of 2024 1] year_in_range_2024 by simp
qed

text \<open>
  The grid of a year from 0 to 99, on its own: the one of that month of 1900 plus the
  year.
\<close>

theorem getCalendarGrid_two_digit_year:
  assumes "0 \<le> y" "y \<le> 99" "0 \<le> m" "m \<le> 11"
  shows "getCalendarGrid y m = Inr (grid_reference (1900 + y) m)"
proof -
  have e: "MakeFullYear y + m div 12 = 1900 + y" "m mod 12 = m"
    using assms by (simp_all add: MakeFullYear_def)
  have "year_in_range (MakeFullYear y + m div 12)"
    unfolding e using assms by (simp add: year_in_range_def)
  from getCalendarGrid_in_range(1) [OF this] show ?thesis
    unfolding e .
qed

theorem getCalendarGrid_two_digit_year_witness:
  "getCalendarGrid 50 0 = Inr (grid_reference 1950 0)
   \<and> map getFullYear (non_empty_slots (concat (grid_reference 1950 0))) = replicate 31 1950"
proof -
  have "map getFullYear (non_empty_slots (concat (grid_reference 1950 0))) = replicate 31 1950"
    by code_simp
  with getCalendarGrid_two_digit_year [of 50 0] show ?thesis
    by simp
qed

text \<open>
  The failing branch is reached when the month lies outside the range of \<open>Date\<close>: both
  dates are invalid, no day is listed, and the read of the first day throws.
\<close>

theorem getCalendarGrid_out_of_range:
  "getMonthDays 300000 0 = [] \<and> getCalendarGrid 300000 0 = Inl TypeError"
  by code_simp

text \<open>
  C8, as stated: a month outside 0 to 11 does not yield a grid. The code checks
  nothing: \<open>new Date\<close> carries the month into the year, and month 12 of 2024 gives the
  grid of January 2025, not an error.
\<close>

theorem getCalendarGrid_month_12_counterexample:
  "\<not> (12 :: int) \<le> 11
   \<and> getCalendarGrid 2024 12 = Inr (grid_reference 2025 0)
   \<and> getCalendarGrid 2024 12 = getCalendarGrid 2025 0
   \<and> getCalendarGrid 2024 12 \<noteq> Inl TypeError"
proof -
  have a: "getCalendarGrid 2024 12 = Inr (grid_reference 2025 0)"
    by code_simp
  have b: "getCalendarGrid 2025 0 = Inr (grid_reference 2025 0)"
    by code_simp
  show ?thesis
    unfolding a b by simp
qed

text \<open>
  C8, amended: for a year in the range of \<open>Date\<close> and a month from 0 to 11 the call has no
  error and returns a grid. A month outside 0 to 11 is not rejected: with \<open>Y\<close> the year
  as the \<open>Date\<close> constructor reads it (1900 plus the year for a year from 0 to 99, the
  year itself otherwise), the month is carried into the year (month 12 of \<open>Y\<close> is January
  of \<open>Y + 1\<close>, month \<open>-1\<close> is December of \<open>Y - 1\<close>), and whenever the year reached is in the
  range of \<open>Date\<close> the call returns the grid of the month reached.
\<close>

theorem getCalendarGrid_month_carried:
  "(year_in_range y \<and> 0 \<le> m \<and> m \<le> 11 \<longrightarrow>
      getCalendarGrid y m = Inr (grid_reference (MakeFullYear y) m))
   \<and> (year_in_range (MakeFullYear y + m div 12) \<longrightarrow>
        getCalendarGrid y m = Inr (grid_reference (MakeFullYear y + m div 12) (m mod 12)))
   \<and> MakeFullYear y = (if 0 \<le> y \<and> y \<le> 99 then 1900 + y else y)"
proof (intro conjI impI)
  assume "year_in_range y \<and> 0 \<le> m \<and> m \<le> 11"
  then show "getCalendarGrid y m = Inr (grid_reference (MakeFullYear y) m)"
    by (intro getCalendarGrid_month) simp_all
next
  assume "year_in_range (MakeFullYear y + m div 12)"
  then show "getCalendarGrid y m = Inr (grid_reference (MakeFullYear y + m div 12) (m mod 12))"
    by (rule getCalendarGrid_in_range)
next
  show "MakeFullYear y = (if 0 \<le> y \<and> y \<le> 99 then 1900 + y else y)"
    by (simp add: MakeFullYear_def)
qed

theorem getCalendarGrid_month_carried_witness:
  "year_in_range (2024 + 12 div 12)
   \<and> getCalendarGrid 2024 12 = Inr (grid_reference 2025 0)
   \<and> getCalendarGrid 2024 (- 1) = Inr (grid_reference 2023 11)
   \<and> year_in_range (1950 + 12 div 12)
   \<and> getCalendarGrid 50 12 = Inr (grid_reference 1951 0)
   \<and> year_in_range 2024
   \<and> getCalendarGrid 2024 1 = Inr (grid_reference 2024 1)"
proof -
  have r: "year_in_range (2024 + 12 div 12)" "year_in_range (2024 + (- 1) div 12)"
    "year_in_range (1950 + 12 div 12)"
    by (simp_all add: year_in_range_def)
  have f: "MakeFullYear 2024 = 2024" "MakeFullYear 50 = 1950"
    by (simp_all add: MakeFullYear_def)
  from getCalendarGrid_month_carried [of 2024 12] getCalendarGrid_month_carried [of 2024 "- 1"]
    getCalendarGrid_month_carried [of 50 12] getCalendarGrid_month_carried [of 2024 1]
    year_in_range_2024 r
  show ?thesis
    unfolding f by simp
qed

section \<open>Claims on \<open>calculatePriority\<close>\<close>

text \<open>
  C2. An absent due date (\<open>null\<close>, \<open>undefined\<close>, and the empty string as well) gives \<open>low\<close>.
  Otherwise, for a due date that parses to a date, with \<open>daysUntil\<close> the whole number
  of days between the due date and midnight of today, the tier is \<open>high\<close> when
  \<open>daysUntil \<le> 3\<close> (overdue dates included), \<open>medium\<close> when \<open>3 < daysUntil \<le> 7\<close>, and
  \<open>low\<close> when \<open>daysUntil > 7\<close>. For a due date at midnight, \<open>daysUntil\<close> is the difference
  of the two day numbers. (\<open>now\<close> is any moment a \<open>Date\<close> can hold but the very last.)
\<close>

theorem calculatePriority_tiers:
  "calculatePriority parseISO now None = low
   \<and> calculatePriority parseISO now (Some []) = low
   \<and> (s \<noteq> [] \<and> parseISO s = TimeValue due \<and> valid_time due
        \<and> valid_time now \<and> now < 8640000000000000 \<longrightarrow>
        (let daysUntil = whole_days_between due (startOfDay now)
         in calculatePriority parseISO now (Some s)
              = (if daysUntil \<le> 3 then high else if daysUntil \<le> 7 then medium else low)
            \<and> (TimeWithinDay due = 0 \<longrightarrow> daysUntil = Day due - Day now)))"
proof (intro conjI impI)
  show "calculatePriority parseISO now None = low"
    by (simp add: calculatePriority_def)
  show "calculatePriority parseISO now (Some []) = low"
    by (simp add: calculatePriority_def)
next
  assume "s \<noteq> [] \<and> parseISO s = TimeValue due \<and> valid_time due
      \<and> valid_time now \<and> now < 8640000000000000"
  then have "calculatePriority parseISO now (Some s)
      = (let daysUntil = whole_days_between due (startOfDay now)
         in if daysUntil \<le> 3 then high else if daysUntil \<le> 7 then medium else low)"
    by (intro calculatePriority_of_days) simp_all
  then show "let daysUntil = whole_days_between due (startOfDay now)
      in calculatePriority parseISO now (Some s)
           = (if daysUntil \<le> 3 then high else if daysUntil \<le> 7 then medium else low)
         \<and> (TimeWithinDay due = 0 \<longrightarrow> daysUntil = Day due - Day now)"
    by (simp add: Let_def whole_days_midnight)
qed

text \<open>
  The witness: at half past ten on 1 May 2024, a due date of 8 May 2024 is seven days
  away and \<open>medium\<close>.
\<close>

theorem calculatePriority_tiers_witness:
  "''2024-05-08'' \<noteq> [] \<and> parseISO_calendar_date ''2024-05-08'' = TimeValue 1715126400000
   \<and> valid_time 1715126400000 \<and> valid_time 1714559400000
   \<and> (1714559400000 :: int) < 8640000000000000
   \<and> TimeWithinDay 1715126400000 = 0
   \<and> whole_days_between 1715126400000 (startOfDay 1714559400000) = 7
   \<and> Day 1715126400000 - Day 1714559400000 = 7
   \<and> calculatePriority parseISO_calendar_date 1714559400000 (Some ''2024-05-08'') = medium"
proof -
  have p: "parseISO_calendar_date ''2024-05-08'' = TimeValue 1715126400000"
    by code_simp
  have v: "valid_time 1715126400000" "valid_time 1714559400000"
    by (simp_all add: valid_time_def)
  have t: "TimeWithinDay 1715126400000 = 0"
    by code_simp
  have d: "whole_days_between 1715126400000 (startOfDay 1714559400000) = 7"
    by code_simp
  from calculatePriority_tiers [of parseISO_calendar_date 1714559400000 "''2024-05-08''"
      1715126400000] p v t
  show ?thesis
    by (simp add: Let_def d)
qed

text \<open>
  C9. The function has no failing branch: on every input, whatever the parser returns,
  the result is one of the three tiers; and when the due date does not parse to a
  date, the result is \<open>low\<close>. (The parsing happens inside the function, and no
  \<open>ParseError\<close> is raised anywhere.)
\<close>

theorem calculatePriority_total:
  "(calculatePriority parseISO now dueDate = high
      \<or> calculatePriority parseISO now dueDate = medium
      \<or> calculatePriority parseISO now dueDate = low)
   \<and> (parseISO s = InvalidDate \<longrightarrow> calculatePriority parseISO now (Some s) = low)"
proof
  show "calculatePriority parseISO now dueDate = high
      \<or> calculatePriority parseISO now dueDate = medium
      \<or> calculatePriority parseISO now dueDate = low"
    by (cases "calculatePriority parseISO now dueDate") simp_all
  show "parseISO s = InvalidDate \<longrightarrow> calculatePriority parseISO now (Some s) = low"
    by (simp add: calculatePriority_def)
qed

theorem calculatePriority_total_witness:
  "parseISO_calendar_date ''next week'' = InvalidDate
   \<and> calculatePriority parseISO_calendar_date 1714559400000 (Some ''next week'') = low
   \<and> parseISO_calendar_date ''2024-02-30'' = InvalidDate
   \<and> calculatePriority parseISO_calendar_date 1714559400000 (Some ''2024-02-30'') = low"
proof -
  have "parseISO_calendar_date ''next week'' = InvalidDate"
    by code_simp
  moreover have "parseISO_calendar_date ''2024-02-30'' = InvalidDate"
    by code_simp
  ultimately show ?thesis
    using calculatePriority_total [of parseISO_calendar_date 1714559400000 _ "''next week''"]
      calculatePriority_total [of parseISO_calendar_date 1714559400000 _ "''2024-02-30''"]
    by simp
qed

end
